(* ===== verification/Vpn_Prelude.thy ===== *)
theory Vpn_Prelude
  imports Main "HOL-Library.AList"
begin

text \<open>
  The vocabulary the component theories share: the parts of JavaScript's strings, numbers,
  \<open>Map\<close> and \<open>Set\<close> that the TypeScript sources use, errors as values, and runs of
  event-driven machines.

  Conventions.  A JavaScript string is a HOL string; the sources only take apart protocol
  text (management console lines, host names, HTTP status lines), which is within its range.
  A number that the sources treat as an integer is an unbounded \<open>int\<close>; a value that may be
  \<open>NaN\<close> is an \<open>int option\<close> with \<open>None\<close> for \<open>NaN\<close>.  JavaScript numbers are exact on
  integers below $2^{53}$, and printing below $10^{21}$ is plain decimal: properties that
  print a number carry such a bound where it matters.  \<open>undefined\<close> and \<open>null\<close>, which the
  sources always test together with \<open>== null\<close>, are both \<open>None\<close>.  A JavaScript \<open>Map\<close>
  keeps insertion order and is an association list updated by \<open>AList.update\<close>; a \<open>Set\<close> is
  a duplicate-free list in insertion order.
\<close>

named_theorems js_string \<open>evaluation and characterisation of the JavaScript string functions\<close>

subsection \<open>Errors as values\<close>

text \<open>The error classes of \<^verbatim>\<open>src/utils/errors.ts\<close> and of the language that the sources
  throw, each with its message where the code gives it one.\<close>

datatype js_error =
    APIError string
  | BadRequestError
  | HandledTunnelingError string
  | RemoteTunnellingError string
  | ServiceRegistrationError string
  | InvalidHostnameError string
  | TimeoutError string
  | JsTypeError
  | JsError string

type_synonym 'a result = "js_error + 'a"

definition bind_result :: "'a result \<Rightarrow> ('a \<Rightarrow> 'b result) \<Rightarrow> 'b result" where
  "bind_result r f = (case r of Inl e \<Rightarrow> Inl e | Inr a \<Rightarrow> f a)"

lemma bind_result_simps [simp]:
  "bind_result (Inl e) f = Inl e"
  "bind_result (Inr a) f = f a"
  by (simp_all add: bind_result_def)

lemma bind_result_eq_Inr:
  "bind_result r f = Inr b \<longleftrightarrow> (\<exists>a. r = Inr a \<and> f a = Inr b)"
  by (auto simp: bind_result_def split: sum.splits)

lemma bind_result_InrE:
  "bind_result r f = Inr b \<Longrightarrow> (\<And>a. r = Inr a \<Longrightarrow> f a = Inr b \<Longrightarrow> P) \<Longrightarrow> P"
  by (auto simp: bind_result_eq_Inr)

subsection \<open>Characters and numbers\<close>

abbreviation CR :: char where "CR \<equiv> CHR 0x0D"
abbreviation LF :: char where "LF \<equiv> CHR 0x0A"

definition is_digit :: "char \<Rightarrow> bool" where
  "is_digit c \<longleftrightarrow> 48 \<le> (of_char c :: nat) \<and> (of_char c :: nat) \<le> 57"

definition digit_val :: "char \<Rightarrow> nat" where
  "digit_val c = of_char c - 48"

definition digit_char :: "nat \<Rightarrow> char" where
  "digit_char d = char_of (48 + d)"

text \<open>White space as \<open>String.prototype.trim\<close> and \<open>parseInt\<close> see it, within the range of
  a HOL character.\<close>

definition is_space :: "char \<Rightarrow> bool" where
  "is_space c \<longleftrightarrow> (of_char c :: nat) \<in> {9, 10, 11, 12, 13, 32, 160}"

lemma digit_char_is_digit: "d < 10 \<Longrightarrow> is_digit (digit_char d)"
  by (simp add: is_digit_def digit_char_def)

lemma digit_val_digit_char: "d < 10 \<Longrightarrow> digit_val (digit_char d) = d"
  by (simp add: digit_val_def digit_char_def)

lemma digit_not_space: "is_digit c \<Longrightarrow> \<not> is_space c"
  by (auto simp: is_digit_def is_space_def)

fun show_nat :: "nat \<Rightarrow> string" where
  "show_nat n = (if n < 10 then [digit_char n] else show_nat (n div 10) @ [digit_char (n mod 10)])"

declare show_nat.simps [simp del]

definition show_int :: "int \<Rightarrow> string" where
  "show_int i = (if i < 0 then CHR ''-'' # show_nat (nat (- i)) else show_nat (nat i))"

text \<open>\<open>Number.prototype.toString\<close> on a number that may be \<open>NaN\<close>.\<close>

definition show_number :: "int option \<Rightarrow> string" where
  "show_number n = (case n of None \<Rightarrow> ''NaN'' | Some i \<Rightarrow> show_int i)"

definition digits_val :: "string \<Rightarrow> nat" where
  "digits_val ds = foldl (\<lambda>a c. 10 * a + digit_val c) 0 ds"

text \<open>\<open>parseInt(s, 10)\<close>: leading white space, an optional sign, then the longest run of
  digits; \<open>NaN\<close> when there is none.\<close>

definition parse_digits :: "string \<Rightarrow> int option" where
  "parse_digits r =
     (let ds = takeWhile is_digit r in if ds = [] then None else Some (int (digits_val ds)))"

definition parseInt :: "string \<Rightarrow> int option" where
  "parseInt s =
     (case dropWhile is_space s of
        [] \<Rightarrow> None
      | c # r \<Rightarrow>
          if c = CHR ''-'' then map_option uminus (parse_digits r)
          else if c = CHR ''+'' then parse_digits r
          else parse_digits (c # r))"

lemma show_nat_nonempty [simp]: "show_nat n \<noteq> []"
  by (subst show_nat.simps) simp

lemma show_nat_digits: "\<forall>c \<in> set (show_nat n). is_digit c"
proof (induction n rule: show_nat.induct)
  case (1 n)
  then show ?case
    by (subst show_nat.simps) (auto simp: digit_char_is_digit)
qed

lemma digits_val_snoc: "digits_val (ds @ [c]) = 10 * digits_val ds + digit_val c"
  by (simp add: digits_val_def)

lemma digits_val_show_nat [simp]: "digits_val (show_nat n) = n"
proof (induction n rule: show_nat.induct)
  case (1 n)
  show ?case
  proof (cases "n < 10")
    case True
    then show ?thesis
      by (subst show_nat.simps) (simp add: digits_val_def digit_val_digit_char)
  next
    case False
    with 1 show ?thesis
      by (subst show_nat.simps) (simp add: digits_val_snoc digit_val_digit_char)
  qed
qed

lemma takeWhile_all: "\<forall>c \<in> set xs. P c \<Longrightarrow> takeWhile P xs = xs"
  by (induction xs) auto

lemma dropWhile_not_hd: "\<not> P (hd xs) \<Longrightarrow> dropWhile P xs = xs"
  by (cases xs) auto

lemma parse_digits_all:
  "ds \<noteq> [] \<Longrightarrow> \<forall>c \<in> set ds. is_digit c \<Longrightarrow> parse_digits ds = Some (int (digits_val ds))"
  by (simp add: parse_digits_def takeWhile_all)

lemma digit_not_sign: "is_digit c \<Longrightarrow> c \<noteq> CHR ''-'' \<and> c \<noteq> CHR ''+''"
  by (auto simp: is_digit_def)

lemma parseInt_digits:
  assumes "ds \<noteq> []" "\<forall>c \<in> set ds. is_digit c"
  shows "parseInt ds = Some (int (digits_val ds))"
proof -
  obtain c r where ds: "ds = c # r" using assms(1) by (cases ds) auto
  with assms(2) have "is_digit c" by simp
  then have "dropWhile is_space ds = c # r" and "c \<noteq> CHR ''-''" and "c \<noteq> CHR ''+''"
    using ds by (auto simp: digit_not_space dest: digit_not_sign)
  then show ?thesis
    using parse_digits_all [OF assms] ds by (simp add: parseInt_def)
qed

lemma parseInt_show_nat [simp]: "parseInt (show_nat n) = Some (int n)"
  by (simp add: parseInt_digits show_nat_digits)

lemma parseInt_show_int [simp]: "parseInt (show_int i) = Some i"
proof (cases "i < 0")
  case True
  then show ?thesis
    by (simp add: show_int_def parseInt_def is_space_def parse_digits_all show_nat_digits)
next
  case False
  then show ?thesis by (simp add: show_int_def)
qed

lemma parseInt_NaN [simp]: "parseInt ''NaN'' = None"
  by (simp add: parseInt_def parse_digits_def is_space_def is_digit_def)

text \<open>Re-parsing the printed form of a number, as the bandwidth code does.\<close>

lemma parseInt_show_number [simp]: "parseInt (show_number n) = n"
  by (cases n) (simp_all add: show_number_def)

lemma show_nat_inject [simp]: "show_nat m = show_nat n \<longleftrightarrow> m = n"
  by (metis digits_val_show_nat)

subsection \<open>Strings\<close>

text \<open>\<open>startsWith\<close>, \<open>includes\<close>, \<open>split\<close> on one character, \<open>split(/\r?\n/)\<close>, \<open>join\<close> and
  \<open>trim\<close>.  \<open>slice(n)\<close> with a non-negative argument is \<^term>\<open>drop\<close>.\<close>

fun starts_with :: "string \<Rightarrow> string \<Rightarrow> bool" where
  "starts_with s [] = True"
| "starts_with [] (c # p) = False"
| "starts_with (d # s) (c # p) = (c = d \<and> starts_with s p)"

fun str_includes :: "string \<Rightarrow> string \<Rightarrow> bool" where
  "str_includes [] p = starts_with [] p"
| "str_includes (c # s) p = (starts_with (c # s) p \<or> str_includes s p)"

text \<open>\<open>toLowerCase\<close>, for ASCII text.\<close>

definition lower_char :: "char \<Rightarrow> char" where
  "lower_char c =
     (if 65 \<le> (of_char c :: nat) \<and> (of_char c :: nat) \<le> 90 then char_of (of_char c + (32::nat)) else c)"

definition toLowerCase :: "string \<Rightarrow> string" where
  "toLowerCase s = map lower_char s"

fun split_char :: "char \<Rightarrow> string \<Rightarrow> string list" where
  "split_char c [] = [[]]"
| "split_char c (d # s) =
     (if d = c then [] # split_char c s
      else case split_char c s of [] \<Rightarrow> [[d]] | p # ps \<Rightarrow> (d # p) # ps)"

fun join :: "string \<Rightarrow> string list \<Rightarrow> string" where
  "join sep [] = []"
| "join sep [p] = p"
| "join sep (p # q # ps) = p @ sep @ join sep (q # ps)"

text \<open>\<open>split(/\r?\n/)\<close>: a line feed ends a line, together with one carriage return before it.\<close>

fun cons_first :: "char \<Rightarrow> string list \<Rightarrow> string list" where
  "cons_first c [] = [[c]]"
| "cons_first c (p # ps) = (c # p) # ps"

fun split_lines :: "string \<Rightarrow> string list" where
  "split_lines [] = [[]]"
| "split_lines [c] = (if c = LF then [[], []] else [[c]])"
| "split_lines (c # d # s) =
     (if c = LF then [] # split_lines (d # s)
      else if c = CR \<and> d = LF then [] # split_lines s
      else cons_first c (split_lines (d # s)))"

definition trim :: "string \<Rightarrow> string" where
  "trim s = rev (dropWhile is_space (rev (dropWhile is_space s)))"

lemma starts_with_iff [js_string]: "starts_with s p \<longleftrightarrow> (\<exists>r. s = p @ r)"
  by (induction s p rule: starts_with.induct) auto

lemma starts_with_append [simp]: "starts_with (p @ r) p"
  by (auto simp: starts_with_iff)

lemma str_includes_iff: "str_includes s p \<longleftrightarrow> (\<exists>a b. s = a @ p @ b)"
proof (induction s p rule: str_includes.induct)
  case (1 p)
  then show ?case by (cases p) auto
next
  case (2 c s p)
  have "str_includes (c # s) p \<longleftrightarrow> (\<exists>b. c # s = p @ b) \<or> (\<exists>a b. s = a @ p @ b)"
    using 2 by (simp only: str_includes.simps starts_with_iff)
  also have "\<dots> \<longleftrightarrow> (\<exists>a b. c # s = a @ p @ b)"
    by (metis append_Cons append_Nil list.exhaust list.inject)
  finally show ?case .
qed

lemma str_includes_append: "str_includes s p \<Longrightarrow> str_includes (s @ t) p"
  by (metis append_assoc str_includes_iff)

lemma split_char_nonempty [simp]: "split_char c s \<noteq> []"
  by (induction s) (auto split: list.splits)

lemma split_char_none: "c \<notin> set s \<Longrightarrow> split_char c s = [s]"
  by (induction s) auto

lemma split_char_append: "c \<notin> set a \<Longrightarrow> split_char c (a @ c # b) = a # split_char c b"
  by (induction a) auto

lemma sep_split:
  "c \<notin> set a \<Longrightarrow> c \<notin> set b \<Longrightarrow> a @ c # r = b @ c # s \<longleftrightarrow> a = b \<and> r = s"
proof (induction a arbitrary: b)
  case Nil
  then show ?case by (cases b) auto
next
  case (Cons d a)
  then show ?case by (cases b) auto
qed

lemma join_split_char: "join [c] (split_char c s) = s"
proof (induction s)
  case Nil
  then show ?case by simp
next
  case (Cons d s)
  obtain p ps where s: "split_char c s = p # ps"
    by (meson list.exhaust split_char_nonempty)
  with Cons show ?case
    by (cases ps) auto
qed

lemma split_char_join:
  "ps \<noteq> [] \<Longrightarrow> \<forall>p \<in> set ps. c \<notin> set p \<Longrightarrow> split_char c (join [c] ps) = ps"
proof (induction ps)
  case (Cons p ps)
  then show ?case
    by (cases ps) (auto simp: split_char_none split_char_append)
qed simp

lemma split_char_first: "\<exists>rest. split_char c s = takeWhile (\<lambda>x. x \<noteq> c) s # rest"
  by (induction s) (auto split: list.splits)

lemma cons_first_nonempty [simp]: "cons_first c ps \<noteq> []"
  by (cases ps) auto

lemma split_lines_nonempty [simp]: "split_lines s \<noteq> []"
  by (induction s rule: split_lines.induct) auto

text \<open>Splitting a text that arrives in two pieces: the first piece's complete lines, then the
  lines of its unfinished last line followed by the second piece.  A carriage return at the
  end of the first piece stays in the unfinished line, so a line end cut in two is found.\<close>

lemma cons_first_append: "ps \<noteq> [] \<Longrightarrow> cons_first c (ps @ qs) = cons_first c ps @ qs"
  by (cases ps) auto

lemma split_lines_single: "split_lines s = [p] \<Longrightarrow> p = s"
proof (induction s arbitrary: p rule: split_lines.induct)
  case (3 c d s)
  then show ?case
    by (cases "split_lines (d # s)") (auto split: if_splits)
qed (auto split: if_splits)

lemma split_lines_append:
  "split_lines (a @ b) = butlast (split_lines a) @ split_lines (last (split_lines a) @ b)"
proof (induction a rule: split_lines.induct)
  case 1
  then show ?case by simp
next
  case (2 c)
  then show ?case by (cases b) auto
next
  case (3 c d s)
  consider "c = LF" | "c \<noteq> LF" "c = CR \<and> d = LF" | "c \<noteq> LF" "\<not> (c = CR \<and> d = LF)"
    by blast
  then show ?case
  proof cases
    case 3
    let ?t = "split_lines (d # s)"
    have IH: "split_lines (d # s @ b) = butlast ?t @ split_lines (last ?t @ b)"
      using "3.IH" 3 by auto
    have lhs: "split_lines ((c # d # s) @ b) = cons_first c (butlast ?t @ split_lines (last ?t @ b))"
      using 3 IH by auto
    obtain p ps where t: "?t = p # ps"
      by (meson list.exhaust split_lines_nonempty)
    show ?thesis
    proof (cases ps)
      case Nil
      then have "p = d # s" using t by (auto dest: split_lines_single)
      then show ?thesis using lhs t Nil 3 by auto
    next
      case (Cons q qs)
      then show ?thesis using lhs t 3 by auto
    qed
  qed (use "3.IH" in auto)
qed

lemma split_lines_no_LF: "LF \<notin> set s \<Longrightarrow> split_lines s = [s]"
  by (induction s rule: split_lines.induct) auto

lemma split_lines_CRLF: "LF \<notin> set l \<Longrightarrow> split_lines (l @ CR # LF # s) = l # split_lines s"
  by (induction l rule: split_lines.induct) auto

lemma split_lines_text:
  "\<forall>l \<in> set ls. LF \<notin> set l \<Longrightarrow> split_lines (concat (map (\<lambda>l. l @ [CR, LF]) ls)) = ls @ [[]]"
  by (induction ls) (auto simp: split_lines_CRLF)

subsection \<open>Maps and sets in insertion order\<close>

definition set_add :: "'a \<Rightarrow> 'a list \<Rightarrow> 'a list" where
  "set_add x xs = (if x \<in> set xs then xs else xs @ [x])"

lemma set_set_add [simp]: "set (set_add x xs) = insert x (set xs)"
  by (auto simp: set_add_def)

lemma distinct_set_add [simp]: "distinct (set_add x xs) \<longleftrightarrow> distinct xs"
  by (auto simp: set_add_def)

lemma set_fold_set_add [simp]: "set (fold set_add ys xs) = set xs \<union> set ys"
  by (induction ys arbitrary: xs) auto

lemma distinct_fold_set_add [simp]: "distinct (fold set_add ys xs) \<longleftrightarrow> distinct xs"
  by (induction ys arbitrary: xs) auto

lemma map_of_update [simp]: "map_of (AList.update k v al) k' = (if k' = k then Some v else map_of al k')"
  by (simp add: update_conv')

lemma set_update_sub: "x \<in> set (AList.update k v al) \<Longrightarrow> x = (k, v) \<or> x \<in> set al"
  by (induction al) (auto split: if_splits)

lemma update_fresh: "k \<notin> fst ` set al \<Longrightarrow> AList.update k v al = al @ [(k, v)]"
  by (induction al) auto

subsection \<open>Event-driven machines\<close>

text \<open>A component that reacts to events is a step function from a state and an event to the
  next state and what it emits; \<open>run_events\<close> feeds it a list of events.\<close>

fun run_events :: "('s \<Rightarrow> 'e \<Rightarrow> 's \<times> 'o list) \<Rightarrow> 's \<Rightarrow> 'e list \<Rightarrow> 's \<times> 'o list" where
  "run_events step s [] = (s, [])"
| "run_events step s (e # es) =
     (let (s', o1) = step s e; (s'', o2) = run_events step s' es in (s'', o1 @ o2))"

lemma run_events_append:
  "run_events step s (es @ fs) =
     (let (s', o1) = run_events step s es; (s'', o2) = run_events step s' fs in (s'', o1 @ o2))"
  by (induction es arbitrary: s) (auto split: prod.splits)

text \<open>A contract every event-driven component meets: an invariant that each step keeps, hence
  each run.\<close>

locale machine_invariant =
  fixes step :: "'s \<Rightarrow> 'e \<Rightarrow> 's \<times> 'o list"
    and inv :: "'s \<Rightarrow> bool"
  assumes step_inv: "inv s \<Longrightarrow> inv (fst (step s e))"
begin

lemma run_inv: "inv s \<Longrightarrow> inv (fst (run_events step s es))"
proof (induction es arbitrary: s)
  case (Cons e es)
  obtain s' o1 where e: "step s e = (s', o1)" by fastforce
  then have "inv s'" using step_inv [OF Cons.prems, of e] by simp
  with Cons.IH [of s'] e show ?case by (simp add: split_def Let_def)
qed simp

end

text \<open>A machine implements a specification on an abstraction of its state: each step does to the
  abstraction what the specification does for the event, hence so does each run, however the
  events are batched.\<close>

locale machine_refinement =
  fixes step :: "'s \<Rightarrow> 'e \<Rightarrow> 's \<times> 'o list"
    and abs_state :: "'s \<Rightarrow> 'a"
    and spec :: "'e \<Rightarrow> 'a \<Rightarrow> 'a"
  assumes step_refines: "abs_state (fst (step s e)) = spec e (abs_state s)"
begin

lemma run_refines: "abs_state (fst (run_events step s es)) = fold spec es (abs_state s)"
proof (induction es arbitrary: s)
  case (Cons e es)
  then show ?case by (simp add: split_def Let_def step_refines)
qed simp

lemma run_from:
  "run_events step s es = (s', outs) \<Longrightarrow> abs_state s = a \<Longrightarrow> abs_state s' = fold spec es a"
  using run_refines [of s es] by simp

end

text \<open>Machines with a choice of steps are relations; their reachable states are an inductive
  predicate, and an invariant of every step holds in every reachable state.\<close>

inductive reach :: "('s \<Rightarrow> bool) \<Rightarrow> ('s \<Rightarrow> 'l \<Rightarrow> 's \<Rightarrow> bool) \<Rightarrow> 's \<Rightarrow> bool"
  for start :: "'s \<Rightarrow> bool" and step :: "'s \<Rightarrow> 'l \<Rightarrow> 's \<Rightarrow> bool" where
  reach_start: "start s \<Longrightarrow> reach start step s"
| reach_step: "reach start step s \<Longrightarrow> step s l s' \<Longrightarrow> reach start step s'"

locale transition_invariant =
  fixes start :: "'s \<Rightarrow> bool"
    and step :: "'s \<Rightarrow> 'l \<Rightarrow> 's \<Rightarrow> bool"
    and inv :: "'s \<Rightarrow> bool"
  assumes start_inv: "start s \<Longrightarrow> inv s"
    and trans_inv: "inv s \<Longrightarrow> step s l s' \<Longrightarrow> inv s'"
begin

lemma reach_inv: "reach start step s \<Longrightarrow> inv s"
  by (induction rule: reach.induct) (auto intro: start_inv trans_inv)

end

text \<open>Steps that cost work and are possible until a goal is reached: every run of them is bounded by
  the work there is, and leads to the goal.\<close>

locale progress_measure =
  fixes step :: "'s \<Rightarrow> 's \<Rightarrow> bool"
    and inv :: "'s \<Rightarrow> bool"
    and goal :: "'s \<Rightarrow> bool"
    and work :: "'s \<Rightarrow> nat"
  assumes step_inv: "inv s \<Longrightarrow> step s t \<Longrightarrow> inv t"
    and step_work: "inv s \<Longrightarrow> step s t \<Longrightarrow> work t < work s"
    and not_stuck: "inv s \<Longrightarrow> \<not> goal s \<Longrightarrow> \<exists>t. step s t"
begin

lemma steps_bounded: "inv s \<Longrightarrow> (step ^^ n) s t \<Longrightarrow> inv t \<and> n + work t \<le> work s"
proof (induction n arbitrary: t)
  case (Suc n)
  then obtain u where u: "(step ^^ n) s u" "step u t" by auto
  with Suc.IH [OF Suc.prems(1)] have "inv u" "n + work u \<le> work s" by auto
  then show ?case using step_inv [OF _ u(2)] step_work [OF _ u(2)] by fastforce
qed simp

lemma reaches_goal: "inv s \<Longrightarrow> \<exists>t. step\<^sup>*\<^sup>* s t \<and> goal t"
proof (induction "work s" arbitrary: s rule: less_induct)
  case less
  show ?case
  proof (cases "goal s")
    case False
    then obtain t where t: "step s t" using not_stuck less.prems by blast
    then obtain u where "step\<^sup>*\<^sup>* t u" "goal u" using less step_inv step_work by blast
    then show ?thesis using converse_rtranclp_into_rtranclp [of step, OF t] by blast
  qed blast
qed

end

end
