(* ===== verification/Netmask.thy ===== *)
theory Netmask
  imports Vpn_Prelude
begin

text \<open>
  \<^verbatim>\<open>src/utils/netmask.ts\<close>: the class \<open>Netmask\<close>, which adds the second and third usable
  address, \<open>split\<close> and a \<open>next\<close> that returns the subclass to the npm package
  \<^verbatim>\<open>netmask\<close>.  The package is not part of the repository: it is the parameter
  \<open>lib\<close> of every definition here, and \<open>netmask_lib_ok\<close> states the documented behaviour of
  it that the properties rely on.
\<close>

subsection \<open>The package, as a parameter\<close>

text \<open>The fields of \<open>netmask.Netmask\<close> that the sources read.\<close>

record netmask_super =
  base_addr :: string
  mask_addr :: string
  bitmask :: int
  netLong :: int
  net_size :: int
  first_addr :: string
  last_addr :: string

record netmask_lib =
  lib_ip2long :: "string \<Rightarrow> int result"
  lib_long2ip :: "int \<Rightarrow> string"
  lib_Netmask :: "string \<Rightarrow> string \<Rightarrow> netmask_super result"
  lib_contains :: "netmask_super \<Rightarrow> netmask_super \<Rightarrow> bool"

subsection \<open>The class\<close>

record netmask = netmask_super +
  second_addr :: string
  third_addr :: string

definition mask_too_small :: "int \<Rightarrow> js_error" where
  "mask_too_small m =
     JsError (''Mask /'' @ show_int m @ '' is too small, 3 usable addresses are required.'')"

definition Netmask_new :: "netmask_lib \<Rightarrow> string \<Rightarrow> int \<Rightarrow> netmask result" where
  "Netmask_new lib net m =
     (if m > 29 then Inl (mask_too_small m)
      else bind_result (lib_Netmask lib net (show_int m)) (\<lambda>b.
           bind_result (lib_ip2long lib (first_addr b)) (\<lambda>f2.
           bind_result (lib_ip2long lib (first_addr b)) (\<lambda>f3.
           Inr (netmask_super.extend b
                  (netmask.fields (lib_long2ip lib (f2 + 1)) (lib_long2ip lib (f3 + 2))))))))"

definition Netmask_next :: "netmask_lib \<Rightarrow> netmask \<Rightarrow> int \<Rightarrow> netmask result" where
  "Netmask_next lib n count =
     Netmask_new lib (lib_long2ip lib (netLong n + net_size n * count)) (bitmask n)"

text \<open>The \<open>while\<close> loop of \<open>split\<close>.  Nothing in the code bounds it: it ends when the package
  says that the next block lies outside, so its result is an option.\<close>

partial_function (option) split_loop ::
  "netmask_lib \<Rightarrow> netmask \<Rightarrow> netmask \<Rightarrow> netmask list \<Rightarrow> netmask list result option" where
  "split_loop lib this net subnets =
     (if lib_contains lib (netmask_super.truncate this) (netmask_super.truncate net)
      then (case Netmask_next lib net 1 of
              Inl e \<Rightarrow> Some (Inl e)
            | Inr net' \<Rightarrow> split_loop lib this net' (subnets @ [net]))
      else Some (Inr subnets))"

definition Netmask_split :: "netmask_lib \<Rightarrow> netmask \<Rightarrow> int \<Rightarrow> netmask list result option" where
  "Netmask_split lib this m =
     (if m < bitmask this
      then Some (Inl (JsError (''Cannot split /'' @ show_int (bitmask this) @
                               '' into /'' @ show_int m @ ''!'')))
      else if m > 29 then Some (Inl (mask_too_small m))
      else case Netmask_new lib (base_addr this) m of
             Inl e \<Rightarrow> Some (Inl e)
           | Inr net \<Rightarrow> split_loop lib this net [])"

subsection \<open>What the code relies on\<close>

text \<open>The block with network number \<open>a\<close> and prefix length \<open>m\<close>, as the package's documentation
  describes its fields.\<close>

definition lib_block :: "netmask_lib \<Rightarrow> int \<Rightarrow> nat \<Rightarrow> netmask_super" where
  "lib_block lib a m =
     \<lparr> base_addr = lib_long2ip lib a,
       mask_addr = lib_long2ip lib (2 ^ 32 - 2 ^ (32 - m)),
       bitmask = int m,
       netLong = a,
       net_size = 2 ^ (32 - m),
       first_addr = lib_long2ip lib (a + 1),
       last_addr = lib_long2ip lib (a + 2 ^ (32 - m) - 2) \<rparr>"

definition netmask_lib_ok :: "netmask_lib \<Rightarrow> bool" where
  "netmask_lib_ok lib \<longleftrightarrow>
     (\<forall>a. 0 \<le> a \<longrightarrow> a < 2 ^ 32 \<longrightarrow> lib_ip2long lib (lib_long2ip lib a) = Inr a) \<and>
     (\<forall>a m. 0 \<le> a \<longrightarrow> a < 2 ^ 32 \<longrightarrow> 1 \<le> m \<longrightarrow> m \<le> 29 \<longrightarrow>
        lib_Netmask lib (lib_long2ip lib a) (show_int (int m)) =
          Inr (lib_block lib (a - a mod 2 ^ (32 - m)) m)) \<and>
     (\<forall>a m a' m'. lib_contains lib (lib_block lib a m) (lib_block lib a' m') \<longleftrightarrow>
        a \<le> a' \<and> a' + 2 ^ (32 - m') \<le> a + 2 ^ (32 - m))"

text \<open>An aligned block of the address space that does not touch its upper end, so that the
  block after it exists.\<close>

definition block_in_range :: "int \<Rightarrow> nat \<Rightarrow> bool" where
  "block_in_range a m \<longleftrightarrow> 1 \<le> m \<and> m \<le> 29 \<and> 0 \<le> a \<and> a mod 2 ^ (32 - m) = 0 \<and> a + 2 ^ (32 - m) < 2 ^ 32"

definition netmask_at :: "netmask_lib \<Rightarrow> int \<Rightarrow> nat \<Rightarrow> netmask" where
  "netmask_at lib a m =
     netmask_super.extend (lib_block lib a m)
       (netmask.fields (lib_long2ip lib (a + 2)) (lib_long2ip lib (a + 3)))"

lemma netmask_lib_okD:
  assumes "netmask_lib_ok lib"
  shows "0 \<le> a \<Longrightarrow> a < 2 ^ 32 \<Longrightarrow> lib_ip2long lib (lib_long2ip lib a) = Inr a"
    and "0 \<le> a \<Longrightarrow> a < 2 ^ 32 \<Longrightarrow> 1 \<le> m \<Longrightarrow> m \<le> 29 \<Longrightarrow>
      lib_Netmask lib (lib_long2ip lib a) (show_int (int m)) = Inr (lib_block lib (a - a mod 2 ^ (32 - m)) m)"
    and "lib_contains lib (lib_block lib a m) (lib_block lib a' m') \<longleftrightarrow>
      a \<le> a' \<and> a' + 2 ^ (32 - m') \<le> a + 2 ^ (32 - m)"
  using assms by (auto simp: netmask_lib_ok_def)

lemma netmask_at_simps [simp]:
  "netmask_super.truncate (netmask_at lib a m) = lib_block lib a m"
  "bitmask (netmask_at lib a m) = int m"
  "netLong (netmask_at lib a m) = a"
  "net_size (netmask_at lib a m) = 2 ^ (32 - m)"
  "base_addr (netmask_at lib a m) = lib_long2ip lib a"
  "mask_addr (netmask_at lib a m) = lib_long2ip lib (2 ^ 32 - 2 ^ (32 - m))"
  "first_addr (netmask_at lib a m) = lib_long2ip lib (a + 1)"
  "last_addr (netmask_at lib a m) = lib_long2ip lib (a + 2 ^ (32 - m) - 2)"
  "second_addr (netmask_at lib a m) = lib_long2ip lib (a + 2)"
  "third_addr (netmask_at lib a m) = lib_long2ip lib (a + 3)"
  by (simp_all add: netmask_at_def lib_block_def netmask_super.defs netmask.defs)

lemma pow_8_le: "m \<le> 29 \<Longrightarrow> (8::int) \<le> 2 ^ (32 - m)"
  using power_increasing [of 3 "32 - m" "2::int"] by simp

lemma Netmask_new_at:
  assumes ok: "netmask_lib_ok lib" and m: "1 \<le> m" "m \<le> 29"
    and a: "0 \<le> a" "a mod 2 ^ (32 - m) = 0" "a + 2 ^ (32 - m) \<le> 2 ^ 32"
  shows "Netmask_new lib (lib_long2ip lib a) (int m) = Inr (netmask_at lib a m)"
proof -
  have "a + 1 < 2 ^ 32" "a < 2 ^ 32" using a pow_8_le [OF m(2)] by auto
  then have "lib_Netmask lib (lib_long2ip lib a) (show_int (int m)) = Inr (lib_block lib a m)"
    and "lib_ip2long lib (lib_long2ip lib (a + 1)) = Inr (a + 1)"
    using netmask_lib_okD(1,2) [OF ok] m a by auto
  then show ?thesis
    using m by (simp add: Netmask_new_def netmask_at_def lib_block_def add.commute)
qed

lemma Netmask_next_at:
  assumes "netmask_lib_ok lib" "1 \<le> m" "m \<le> 29"
    and "0 \<le> a" "a mod 2 ^ (32 - m) = 0" "a + 2 * 2 ^ (32 - m) \<le> 2 ^ 32"
  shows "Netmask_next lib (netmask_at lib a m) 1 = Inr (netmask_at lib (a + 2 ^ (32 - m)) m)"
  using assms Netmask_new_at [of lib m "a + 2 ^ (32 - m)"]
  by (simp add: Netmask_next_def)

subsection \<open>Splitting a block\<close>

text \<open>The loop from the \<open>k\<close>-th sub-block on collects the remaining ones.  The last call of
  \<open>next\<close> builds the block just after \<open>this\<close>, which is why that block has to exist.\<close>

lemma sub_block_facts:
  assumes "block_in_range a b" "b \<le> m" "m \<le> 29"
  shows "(2::int) ^ (m - b) * 2 ^ (32 - m) = 2 ^ (32 - b)"
    and "(a + int k * 2 ^ (32 - m)) mod 2 ^ (32 - m) = 0"
proof -
  have eq: "32 - b = (32 - m) + (m - b)" using assms by simp
  show "(2::int) ^ (m - b) * 2 ^ (32 - m) = 2 ^ (32 - b)"
    unfolding eq power_add by simp
  have "(2::int) ^ (32 - m) dvd 2 ^ (32 - b)" using assms by (simp add: le_imp_power_dvd)
  moreover have "(2::int) ^ (32 - b) dvd a" using assms by (auto simp: block_in_range_def)
  ultimately have "(2::int) ^ (32 - m) dvd a" by (rule dvd_trans)
  then show "(a + int k * 2 ^ (32 - m)) mod 2 ^ (32 - m) = 0" by simp
qed

lemma block_in_range_next:
  assumes "block_in_range a b"
  shows "a + 2 * 2 ^ (32 - b) \<le> (2::int) ^ 32"
proof -
  let ?S = "(2::int) ^ (32 - b)"
  obtain q where q: "a = ?S * q" using assms by (auto simp: block_in_range_def dvd_def)
  have "(2::int) ^ 32 = 2 ^ ((32 - b) + b)" using assms by (simp add: block_in_range_def)
  then have T: "(2::int) ^ 32 = ?S * 2 ^ b" by (simp only: power_add)
  have "?S * (q + 1) < ?S * 2 ^ b"
    using assms q T by (simp add: block_in_range_def algebra_simps)
  then have "q + 2 \<le> 2 ^ b" by simp
  then have "?S * (q + 2) \<le> ?S * 2 ^ b" by simp
  then show ?thesis unfolding T q by (simp add: algebra_simps)
qed

lemma split_loop_from:
  assumes ok: "netmask_lib_ok lib" and r: "block_in_range a b" and m: "b \<le> m" "m \<le> 29"
    and k: "k \<le> 2 ^ (m - b)"
  shows "split_loop lib (netmask_at lib a b) (netmask_at lib (a + int k * 2 ^ (32 - m)) m) acc =
    Some (Inr (acc @ map (\<lambda>i. netmask_at lib (a + int i * 2 ^ (32 - m)) m) [k..<2 ^ (m - b)]))"
  using k
proof (induction "2 ^ (m - b) - k" arbitrary: k acc)
  case 0
  then have k: "k = 2 ^ (m - b)" by simp
  have "a + int k * 2 ^ (32 - m) = a + 2 ^ (32 - b)"
    using sub_block_facts(1) [OF r m] k by simp
  moreover have "\<not> lib_contains lib (lib_block lib a b) (lib_block lib (a + 2 ^ (32 - b)) m)"
    by (simp add: netmask_lib_okD(3) [OF ok])
  ultimately show ?case
    using k by (subst split_loop.simps) simp
next
  case (Suc x)
  let ?s = "(2::int) ^ (32 - m)"
  from Suc(2) have k: "k + 1 \<le> 2 ^ (m - b)" by simp
  then have "int (k + 1) \<le> 2 ^ (m - b)" by (metis of_nat_le_iff of_nat_numeral of_nat_power)
  then have "int (k + 1) * ?s \<le> 2 ^ (m - b) * ?s" by (simp add: mult_right_mono)
  then have le: "int (k + 1) * ?s \<le> 2 ^ (32 - b)" using sub_block_facts(1) [OF r m] by simp
  then have inside: "lib_contains lib (lib_block lib a b) (lib_block lib (a + int k * ?s) m)"
    by (simp add: netmask_lib_okD(3) [OF ok] algebra_simps)
  have s_le: "?s \<le> 2 ^ (32 - b)" using m by (simp add: power_increasing)
  have "int (k + 1) * ?s = int k * ?s + ?s" by (simp add: algebra_simps)
  then have fits: "a + int k * ?s + 2 * ?s \<le> 2 ^ 32"
    using le s_le block_in_range_next [OF r] by linarith
  have "Netmask_next lib (netmask_at lib (a + int k * ?s) m) 1 =
      Inr (netmask_at lib (a + int k * ?s + ?s) m)"
    using r m fits sub_block_facts(2) [OF r m]
    by (intro Netmask_next_at [OF ok]) (auto simp: block_in_range_def)
  then have step: "Netmask_next lib (netmask_at lib (a + int k * ?s) m) 1 =
      Inr (netmask_at lib (a + int (k + 1) * ?s) m)"
    by (simp add: algebra_simps)
  have "split_loop lib (netmask_at lib a b) (netmask_at lib (a + int k * ?s) m) acc =
      split_loop lib (netmask_at lib a b) (netmask_at lib (a + int (k + 1) * ?s) m)
        (acc @ [netmask_at lib (a + int k * ?s) m])"
    by (subst split_loop.simps) (simp add: inside step)
  also have "\<dots> = Some (Inr ((acc @ [netmask_at lib (a + int k * ?s) m]) @
      map (\<lambda>i. netmask_at lib (a + int i * ?s) m) [k + 1..<2 ^ (m - b)]))"
    using Suc(1) [of "k + 1"] Suc(2) k by simp
  finally show ?case
    using k by (simp add: upt_rec [of k])
qed

lemma split_at:
  assumes "netmask_lib_ok lib" "block_in_range a b" "b \<le> m" "m \<le> 29"
  shows "Netmask_split lib (netmask_at lib a b) (int m) =
    Some (Inr (map (\<lambda>i. netmask_at lib (a + int i * 2 ^ (32 - m)) m) [0..<2 ^ (m - b)]))"
proof -
  have "a mod 2 ^ (32 - m) = 0" using sub_block_facts(2) [OF assms(2-4), of 0] by simp
  moreover have "a + (2::int) ^ (32 - m) \<le> 2 ^ 32"
  proof -
    have "(2::int) ^ (32 - m) \<le> 2 ^ (32 - b)" using assms(3) by (simp add: power_increasing)
    moreover have "a + 2 ^ (32 - b) < (2::int) ^ 32" using assms(2) by (simp add: block_in_range_def)
    ultimately show ?thesis by linarith
  qed
  ultimately have "Netmask_new lib (lib_long2ip lib a) (int m) = Inr (netmask_at lib a m)"
    using assms by (intro Netmask_new_at) (auto simp: block_in_range_def)
  then show ?thesis
    using assms(3,4) split_loop_from [OF assms, of 0 "[]"] by (simp add: Netmask_split_def)
qed

lemma div_eq_iff_bounds:
  assumes "0 < (s::int)"
  shows "i = y div s \<longleftrightarrow> i * s \<le> y \<and> y < i * s + s"
proof
  assume "i = y div s"
  then have "y = i * s + y mod s" by simp
  moreover have "0 \<le> y mod s" "y mod s < s" using assms by auto
  ultimately show "i * s \<le> y \<and> y < i * s + s" by linarith
next
  assume "i * s \<le> y \<and> y < i * s + s"
  then have "y div s = i"
    by (intro int_div_pos_eq [where r = "y - i * s"]) (auto simp: mult.commute)
  then show "i = y div s" by simp
qed

lemma div_less_of_less_mult:
  assumes "0 < (s::int)" "y < n * s"
  shows "y div s < n"
proof -
  have "y div s * s \<le> y" using assms(1) div_eq_iff_bounds by blast
  then have "y div s * s < n * s" using assms(2) by linarith
  then show ?thesis using assms(1) by simp
qed

subsection \<open>An implementation of the documented behaviour\<close>

text \<open>Dotted quads, so that the hypotheses on the package can be seen to hold together.\<close>

definition octets :: "int \<Rightarrow> nat list" where
  "octets a = [nat (a div 2 ^ 24 mod 256), nat (a div 2 ^ 16 mod 256), nat (a div 2 ^ 8 mod 256),
               nat (a mod 256)]"

definition dotted :: "int \<Rightarrow> string" where
  "dotted a = join ''.'' (map show_nat (octets a))"

definition undotted :: "string \<Rightarrow> int result" where
  "undotted s =
     (case map parseInt (split_char CHR ''.'' s) of
        [Some p, Some q, Some r, Some t] \<Rightarrow> Inr (p * 2 ^ 24 + q * 2 ^ 16 + r * 2 ^ 8 + t)
      | _ \<Rightarrow> Inl (JsError (''Invalid net address: '' @ s)))"

definition quad_block :: "int \<Rightarrow> nat \<Rightarrow> netmask_super" where
  "quad_block a m =
     \<lparr> base_addr = dotted a, mask_addr = dotted (2 ^ 32 - 2 ^ (32 - m)), bitmask = int m,
       netLong = a, net_size = 2 ^ (32 - m), first_addr = dotted (a + 1),
       last_addr = dotted (a + 2 ^ (32 - m) - 2) \<rparr>"

definition quad_lib :: netmask_lib where
  "quad_lib =
     \<lparr> lib_ip2long = undotted,
       lib_long2ip = dotted,
       lib_Netmask = (\<lambda>net m. bind_result (undotted net) (\<lambda>a.
          case parseInt m of
            None \<Rightarrow> Inl (JsError (''Invalid mask: '' @ m))
          | Some i \<Rightarrow> Inr (quad_block (a - a mod 2 ^ (32 - nat i)) (nat i)))),
       lib_contains = (\<lambda>b c. netLong b \<le> netLong c \<and> netLong c + net_size c \<le> netLong b + net_size b) \<rparr>"

lemma octets_sum:
  assumes "0 \<le> a" "a < (2::int) ^ 32"
  shows "a div 2 ^ 24 mod 256 * 2 ^ 24 + a div 2 ^ 16 mod 256 * 2 ^ 16 +
      a div 2 ^ 8 mod 256 * 2 ^ 8 + a mod 256 = a"
proof -
  define q r t where "q = a div 256" and "r = q div 256" and "t = r div 256"
  define u v w where "u = a mod 256" and "v = q mod 256" and "w = r mod 256"
  have sums: "a = q * 256 + u" "q = r * 256 + v" "r = t * 256 + w"
    by (simp_all add: q_def r_def t_def u_def v_def w_def)
  have t: "t mod 256 = t"
    using assms by (intro mod_pos_pos_trivial) (simp_all add: t_def r_def q_def flip: zdiv_zmult2_eq)
  have parts: "a div 2 ^ 24 = t" "a div 2 ^ 16 = r" "a div 2 ^ 8 = q"
    by (simp_all add: t_def r_def q_def flip: zdiv_zmult2_eq)
  show ?thesis
    unfolding parts t u_def [symmetric] v_def [symmetric] w_def [symmetric] using sums by simp
qed

lemma undotted_quad:
  "undotted (join ''.'' (map show_nat [p, q, r, t])) =
     Inr (int p * 2 ^ 24 + int q * 2 ^ 16 + int r * 2 ^ 8 + int t)"
proof -
  have "CHR ''.'' \<notin> set (show_nat n)" for n
    using show_nat_digits [of n] by (auto simp: is_digit_def)
  then have "split_char CHR ''.'' (join ''.'' (map show_nat [p, q, r, t])) = map show_nat [p, q, r, t]"
    by (subst split_char_join) auto
  then show ?thesis unfolding undotted_def by simp
qed

lemma undotted_dotted:
  assumes "0 \<le> a" "a < 2 ^ 32"
  shows "undotted (dotted a) = Inr a"
proof -
  have "int (nat (y mod 256)) = y mod 256" for y :: int by simp
  then show ?thesis
    unfolding dotted_def octets_def undotted_quad by (simp only: octets_sum [OF assms])
qed

lemma quad_lib_ok: "netmask_lib_ok quad_lib"
  unfolding netmask_lib_ok_def
  by (auto simp: quad_lib_def undotted_dotted lib_block_def quad_block_def)

subsection \<open>Properties\<close>

text \<open>C17. \<open>split\<close> terminates and returns the consecutive sub-blocks of the network: for a block
  \<open>a/b\<close> and \<open>b \<le> m \<le> 29\<close> there are \<open>2 ^ (m - b)\<close> of them, the \<open>i\<close>-th starting at
  \<open>a + i * 2 ^ (32 - m)\<close>, each with its first, second, third and last usable address.\<close>

theorem split_sub_blocks:
  assumes "netmask_lib_ok lib" and "block_in_range a b" and "b \<le> m" and "m \<le> 29"
    and "Netmask_new lib (lib_long2ip lib a) (int b) = Inr this"
  shows "Netmask_split lib this (int m) =
    Some (Inr (map (\<lambda>i. netmask_at lib (a + int i * 2 ^ (32 - m)) m) [0..<2 ^ (m - b)]))"
proof -
  have "Netmask_new lib (lib_long2ip lib a) (int b) = Inr (netmask_at lib a b)"
    using assms by (intro Netmask_new_at) (auto simp: block_in_range_def)
  then show ?thesis using assms split_at by simp
qed

theorem split_sub_blocks_witness:
  "Netmask_split quad_lib (netmask_at quad_lib 1681915904 10) 11 =
     Some (Inr [netmask_at quad_lib 1681915904 11, netmask_at quad_lib 1684013056 11])"
  using split_sub_blocks [OF quad_lib_ok, of 1681915904 10 11 "netmask_at quad_lib 1681915904 10"]
    Netmask_new_at [OF quad_lib_ok, of 10 1681915904]
  by (simp add: block_in_range_def numeral_2_eq_2)

text \<open>The sub-blocks partition the network: every address of the block lies in exactly one
  of them, so no two OpenVPN instances are given overlapping address ranges.\<close>

theorem split_partition:
  assumes "netmask_lib_ok lib" and "block_in_range a b" and "b \<le> m" and "m \<le> 29"
    and "Netmask_split lib (netmask_at lib a b) (int m) = Some (Inr subnets)"
    and "a \<le> x" and "x < a + 2 ^ (32 - b)"
  shows "\<exists>!i. i < length subnets \<and> netLong (subnets ! i) \<le> x \<and>
    x < netLong (subnets ! i) + net_size (subnets ! i)"
proof -
  let ?s = "(2::int) ^ (32 - m)"
  have subnets: "subnets = map (\<lambda>i. netmask_at lib (a + int i * ?s) m) [0..<2 ^ (m - b)]"
    using split_at [OF assms(1-4)] assms(5) by simp
  have iff: "a + int i * ?s \<le> x \<and> x < a + int i * ?s + ?s \<longleftrightarrow> int i = (x - a) div ?s" for i
  proof -
    have "0 < ?s" by simp
    then show ?thesis by (auto simp: div_eq_iff_bounds)
  qed
  have "(x - a) div ?s < 2 ^ (m - b)"
    using assms(7) sub_block_facts(1) [OF assms(2-4)]
    by (intro div_less_of_less_mult) (auto simp: algebra_simps)
  moreover obtain k where k: "int k = (x - a) div ?s"
    using assms(6) by (metis nonneg_int_cases pos_imp_zdiv_nonneg_iff diff_ge_0_iff_ge
        zero_less_numeral zero_less_power)
  ultimately have "k < 2 ^ (m - b)" by (metis of_nat_less_iff of_nat_numeral of_nat_power)
  then have "(i < length subnets \<and> netLong (subnets ! i) \<le> x \<and>
      x < netLong (subnets ! i) + net_size (subnets ! i)) \<longleftrightarrow> i = k" for i
    using iff [of i] k by (cases "i < 2 ^ (m - b)") (auto simp: subnets)
  then show ?thesis by simp
qed

theorem split_partition_witness:
  "\<exists>!i. i < length [netmask_at quad_lib 1681915904 11, netmask_at quad_lib 1684013056 11] \<and>
     netLong ([netmask_at quad_lib 1681915904 11, netmask_at quad_lib 1684013056 11] ! i) \<le> 1684013060 \<and>
     1684013060 < netLong ([netmask_at quad_lib 1681915904 11, netmask_at quad_lib 1684013056 11] ! i) +
       net_size ([netmask_at quad_lib 1681915904 11, netmask_at quad_lib 1684013056 11] ! i)"
  using split_at [OF quad_lib_ok, of 1681915904 10 11]
  by (intro split_partition [OF quad_lib_ok, of 1681915904 10 11])
     (simp_all add: block_in_range_def numeral_2_eq_2)

end
