(* ===== verification/Clients.thy ===== *)
theory Clients
  imports Vpn_Prelude
begin

text \<open>
  \<^verbatim>\<open>src/utils/clients.ts\<close>: reporting of device connect and disconnect events to the API.

  The module keeps a \<open>Map\<close> of trackers (target and last reported state per device), a
  \<open>Set\<close> of devices with a pending update and the flag \<open>currentlyReporting\<close>.  A call of
  \<open>setConnected\<close> runs synchronously into \<open>updateLoop\<close>, which issues its requests before its
  first \<open>await\<close>; what remains of the loop after that is a suspended coroutine.  The model
  keeps the suspended coroutines in \<open>loops\<close>: one that waits for outstanding requests, or one
  that waits for the one-second timer of the \<open>finally\<close> block.  Steps are the calls, the
  settling of one outstanding request and the firing of the timer, in any order the
  environment chooses.
\<close>

subsection \<open>State\<close>

text \<open>Worker ids come from \<open>parseInt\<close>, so they may be \<open>NaN\<close> (\<open>None\<close>); the optional fields
  of the interface are \<open>None\<close> until the first successful report.\<close>

record tracker =
  targetConnected :: bool
  targetWorkerId :: "int option"
  currentConnected :: "bool option"
  currentWorkerId :: "int option option"

record clients_config =
  api_host :: string
  vpn_service_api_key :: string
  batch_size :: int

record device_post =
  post_url :: string
  post_authorization :: string
  post_serviceId :: int
  post_uuids :: "string list"
  post_connected :: bool

datatype update_loop =
    AwaitReports int "device_post list"
  | AwaitTimer int

record clients_state =
  deviceStates :: "(string \<times> tracker) list"
  pendingUpdates :: "string list"
  currentlyReporting :: bool
  loops :: "update_loop list"

definition clients_init :: clients_state where
  "clients_init =
     \<lparr> deviceStates = [], pendingUpdates = [], currentlyReporting = False, loops = [] \<rparr>"

subsection \<open>chunk\<close>

text \<open>\<open>Array.prototype.slice\<close> with its treatment of negative and out-of-range positions.\<close>

definition slice_index :: "'a list \<Rightarrow> int \<Rightarrow> nat" where
  "slice_index xs i = (if i < 0 then nat (int (length xs) + i) else min (nat i) (length xs))"

definition js_slice :: "'a list \<Rightarrow> int \<Rightarrow> int \<Rightarrow> 'a list" where
  "js_slice xs i j = drop (slice_index xs i) (take (slice_index xs j) xs)"

text \<open>The loop steps by \<open>size\<close>, which the configuration does not force to be positive.\<close>

partial_function (option) chunk_loop ::
  "'a list \<Rightarrow> int \<Rightarrow> int \<Rightarrow> 'a list list \<Rightarrow> 'a list list option" where
  "chunk_loop arr sz i res =
     (if i < int (length arr)
      then chunk_loop arr sz (i + sz) (res @ [js_slice arr i (i + sz)])
      else Some res)"

definition chunk :: "'a list \<Rightarrow> int \<Rightarrow> 'a list list option" where
  "chunk arr sz = chunk_loop arr sz 0 []"

subsection \<open>reportUpdates and updateLoop\<close>

text \<open>The requests one call of \<open>reportUpdates\<close> issues.\<close>

definition reportUpdates ::
  "clients_config \<Rightarrow> int \<Rightarrow> string list \<Rightarrow> bool \<Rightarrow> device_post list option" where
  "reportUpdates cfg serviceId uuids connected =
     (if uuids = [] then Some []
      else map_option (map (\<lambda>uuidChunk.
             \<lparr> post_url = api_host cfg @ ''/services/vpn/client-'' @
                          (if connected then ''connect'' else ''disconnect''),
               post_authorization = ''Bearer '' @ vpn_service_api_key cfg,
               post_serviceId = serviceId,
               post_uuids = uuidChunk,
               post_connected = connected \<rparr>))
           (chunk uuids (batch_size cfg)))"

text \<open>\<open>target !== current\<close> for worker ids: \<open>NaN\<close> differs from everything.\<close>

definition worker_differs :: "int option \<Rightarrow> int option option \<Rightarrow> bool" where
  "worker_differs tgt cur = (case (tgt, cur) of (Some a, Some (Some b)) \<Rightarrow> a \<noteq> b | _ \<Rightarrow> True)"

definition needs_update :: "tracker \<Rightarrow> bool" where
  "needs_update t \<longleftrightarrow>
     currentConnected t \<noteq> Some (targetConnected t) \<or>
     worker_differs (targetWorkerId t) (currentWorkerId t)"

definition tracker_of :: "clients_state \<Rightarrow> string \<Rightarrow> tracker" where
  "tracker_of st u = the (map_of (deviceStates st) u)"

text \<open>\<open>updateLoop\<close> up to its first suspension: the new state and the requests issued, or
  \<open>None\<close> when \<open>chunk\<close> never returns.  A pending device without a tracker makes the
  destructuring throw, which runs the \<open>finally\<close> block.\<close>

definition updateLoop ::
  "clients_config \<Rightarrow> int \<Rightarrow> clients_state \<Rightarrow> (clients_state \<times> device_post list) option" where
  "updateLoop cfg serviceId st =
     (if currentlyReporting st \<or> pendingUpdates st = [] then Some (st, [])
      else if \<exists>u \<in> set (pendingUpdates st). map_of (deviceStates st) u = None
      then Some (st\<lparr>currentlyReporting := True, loops := loops st @ [AwaitTimer serviceId]\<rparr>, [])
      else
        let due = filter (\<lambda>u. needs_update (tracker_of st u)) (pendingUpdates st);
            connects = filter (\<lambda>u. targetConnected (tracker_of st u)) due;
            disconnects = filter (\<lambda>u. \<not> targetConnected (tracker_of st u)) due
        in case (reportUpdates cfg serviceId disconnects False,
                 reportUpdates cfg serviceId connects True) of
             (Some ds, Some cs) \<Rightarrow>
               Some (st\<lparr>currentlyReporting := True, pendingUpdates := [],
                       loops := loops st @
                         [if ds @ cs = [] then AwaitTimer serviceId
                          else AwaitReports serviceId (ds @ cs)]\<rparr>,
                     ds @ cs)
           | _ \<Rightarrow> None)"

text \<open>The function the module exports.\<close>

definition setConnected ::
  "clients_config \<Rightarrow> string \<Rightarrow> int \<Rightarrow> int option \<Rightarrow> bool \<Rightarrow> clients_state \<Rightarrow>
   (clients_state \<times> device_post list) option" where
  "setConnected cfg uuid serviceId workerId connected st =
     (let t = (case map_of (deviceStates st) uuid of
                 None \<Rightarrow> \<lparr> targetConnected = connected, targetWorkerId = workerId,
                           currentConnected = None, currentWorkerId = None \<rparr>
               | Some t \<Rightarrow> t\<lparr>targetConnected := connected, targetWorkerId := workerId\<rparr>)
      in updateLoop cfg serviceId
           (st\<lparr>deviceStates := AList.update uuid t (deviceStates st),
               pendingUpdates := set_add uuid (pendingUpdates st)\<rparr>))"

subsection \<open>Settling a request, and the timer\<close>

datatype outcome = Status int | RequestFailed

text \<open>The \<open>for\<close> loop that records a successful report; the flag is False when a tracker is
  missing and the assignment throws.\<close>

fun mark_reported ::
  "bool \<Rightarrow> string list \<Rightarrow> (string \<times> tracker) list \<Rightarrow> (string \<times> tracker) list \<times> bool" where
  "mark_reported c [] ds = (ds, True)"
| "mark_reported c (u # us) ds =
     (case map_of ds u of
        None \<Rightarrow> (ds, False)
      | Some t \<Rightarrow>
          mark_reported c us
            (AList.update u
               (t\<lparr>currentConnected := Some c, currentWorkerId := Some (targetWorkerId t)\<rparr>) ds))"

definition settle_post :: "device_post \<Rightarrow> outcome \<Rightarrow> clients_state \<Rightarrow> clients_state" where
  "settle_post p out st =
     (if out = Status 200
      then (case mark_reported (post_connected p) (post_uuids p) (deviceStates st) of
              (ds, True) \<Rightarrow> st\<lparr>deviceStates := ds\<rparr>
            | (ds, False) \<Rightarrow>
                st\<lparr>deviceStates := ds,
                   pendingUpdates := fold set_add (post_uuids p) (pendingUpdates st)\<rparr>)
      else st\<lparr>pendingUpdates := fold set_add (post_uuids p) (pendingUpdates st)\<rparr>)"

text \<open>What is left of a loop when one of its requests has settled: once all have, the
  \<open>finally\<close> block waits for the timer.\<close>

definition await_rest :: "int \<Rightarrow> device_post list \<Rightarrow> update_loop" where
  "await_rest serviceId ps = (if ps = [] then AwaitTimer serviceId else AwaitReports serviceId ps)"

datatype clients_event =
    Call string int "int option" bool
  | Settled device_post outcome
  | TimerFired

inductive clients_trans ::
  "clients_config \<Rightarrow> clients_state \<Rightarrow> clients_event \<times> device_post list \<Rightarrow> clients_state \<Rightarrow> bool"
  for cfg :: clients_config where
  call: "setConnected cfg u sid wid c st = Some (st', ps) \<Longrightarrow>
     clients_trans cfg st (Call u sid wid c, ps) st'"
| settled: "loops st = xs @ AwaitReports sid (as @ p # bs) # ys \<Longrightarrow>
     st' = (settle_post p out st)\<lparr>loops := xs @ await_rest sid (as @ bs) # ys\<rparr> \<Longrightarrow>
     clients_trans cfg st (Settled p out, []) st'"
| timer: "loops st = xs @ AwaitTimer sid # ys \<Longrightarrow>
     updateLoop cfg sid (st\<lparr>loops := xs @ ys, currentlyReporting := False\<rparr>) = Some (st', ps) \<Longrightarrow>
     clients_trans cfg st (TimerFired, ps) st'"

abbreviation clients_reach :: "clients_config \<Rightarrow> clients_state \<Rightarrow> bool" where
  "clients_reach cfg \<equiv> reach (\<lambda>s. s = clients_init) (clients_trans cfg)"

inductive_cases settledE: "clients_trans cfg st (Settled p out, ps) st'"
inductive_cases timerE: "clients_trans cfg st (TimerFired, ps) st'"
inductive_cases callE: "clients_trans cfg st (Call u sid wid c, ps) st'"

subsection \<open>chunk: lemmas\<close>

lemma js_slice_forward:
  "0 \<le> i \<Longrightarrow> 0 \<le> sz \<Longrightarrow> js_slice xs i (i + sz) = take (nat sz) (drop (nat i) xs)"
  by (simp add: js_slice_def slice_index_def drop_take min_def nat_add_distrib)

fun chunks_of :: "nat \<Rightarrow> 'a list \<Rightarrow> 'a list list" where
  "chunks_of n xs = (if n = 0 \<or> xs = [] then [] else take n xs # chunks_of n (drop n xs))"

declare chunks_of.simps [simp del]

lemma chunks_of_Nil [simp]: "chunks_of n [] = []"
  by (simp add: chunks_of.simps)

lemma chunk_loop_eq:
  assumes "0 < sz" "0 \<le> i"
  shows "chunk_loop arr sz i res = Some (res @ chunks_of (nat sz) (drop (nat i) arr))"
  using assms(2)
proof (induction "length arr - nat i" arbitrary: i res rule: less_induct)
  case less
  show ?case
  proof (cases "i < int (length arr)")
    case True
    have "chunk_loop arr sz i res = chunk_loop arr sz (i + sz) (res @ [js_slice arr i (i + sz)])"
      using True by (subst chunk_loop.simps) simp
    also have "\<dots> = Some ((res @ [js_slice arr i (i + sz)]) @
        chunks_of (nat sz) (drop (nat (i + sz)) arr))"
      using less.prems True assms(1) by (intro less.hyps) auto
    finally show ?thesis
      using True less.prems assms(1)
      by (subst chunks_of.simps) (simp add: js_slice_forward nat_add_distrib add.commute)
  next
    case False
    then show ?thesis
      by (subst chunk_loop.simps, subst chunks_of.simps) simp
  qed
qed

lemma chunk_eq: "0 < sz \<Longrightarrow> chunk arr sz = Some (chunks_of (nat sz) arr)"
  by (simp add: chunk_def chunk_loop_eq)

lemma chunks_of_props:
  assumes "0 < n"
  shows "concat (chunks_of n xs) = xs"
    and "c \<in> set (chunks_of n xs) \<Longrightarrow> c \<noteq> [] \<and> length c \<le> n"
    and "length (chunks_of n xs) \<le> length xs"
  using assms
proof (induction n xs rule: chunks_of.induct)
  case (1 n xs)
  {
    case 1
    show ?case using "1.IH"(1) 1 by (cases "xs = []") (simp_all add: chunks_of.simps [of n xs])
  next
    case 2
    then show ?case using "1.IH"(2)
      by (cases "xs = []") (auto simp: chunks_of.simps [of n xs])
  next
    case 3
    show ?case
    proof (cases "xs = []")
      case False
      then have "length (chunks_of n (drop n xs)) \<le> length (drop n xs)" using "1.IH"(3) 3 by simp
      moreover have "0 < length xs" using False by simp
      moreover have "length (chunks_of n xs) = Suc (length (chunks_of n (drop n xs)))"
        using 3 False by (simp add: chunks_of.simps [of n xs])
      ultimately show ?thesis using 3 unfolding length_drop by linarith
    qed (simp add: chunks_of.simps)
  }
qed

text \<open>With a size of zero or less the position never reaches the end of the array.\<close>

lemma chunk_loop_diverges:
  assumes "sz \<le> 0" "i < int (length arr)"
  shows "chunk_loop arr sz i res = None"
proof (rule ccontr)
  assume "chunk_loop arr sz i res \<noteq> None"
  then obtain r where r: "chunk_loop arr sz i res = Some r" by blast
  have "sz \<le> 0 \<longrightarrow> \<not> i < int (length arr)"
  proof (rule chunk_loop.raw_induct [where P = "\<lambda>arr sz i res r. sz \<le> 0 \<longrightarrow> \<not> i < int (length arr)", OF _ r])
    fix f :: "'a list \<Rightarrow> int \<Rightarrow> int \<Rightarrow> 'a list list \<Rightarrow> 'a list list option" and arr sz i res r
    assume IH: "\<And>arr sz i res r. f arr sz i res = Some r \<Longrightarrow> sz \<le> 0 \<longrightarrow> \<not> i < int (length arr)"
      and eq: "(if i < int (length arr) then f arr sz (i + sz) (res @ [js_slice arr i (i + sz)])
        else Some res) = Some r"
    show "sz \<le> 0 \<longrightarrow> \<not> i < int (length arr)"
    proof (intro impI notI)
      assume "sz \<le> 0" "i < int (length arr)"
      with eq have "f arr sz (i + sz) (res @ [js_slice arr i (i + sz)]) = Some r" by simp
      from IH [OF this] \<open>sz \<le> 0\<close> \<open>i < int (length arr)\<close> show False by simp
    qed
  qed
  with assms show False by simp
qed

subsection \<open>The invariant\<close>

fun loop_posts :: "update_loop \<Rightarrow> device_post list" where
  "loop_posts (AwaitReports sid ps) = ps"
| "loop_posts (AwaitTimer sid) = []"

definition outstanding :: "clients_state \<Rightarrow> device_post list" where
  "outstanding st = concat (map loop_posts (loops st))"

definition in_flight :: "clients_state \<Rightarrow> string list" where
  "in_flight st = concat (map post_uuids (outstanding st))"

text \<open>The target state of the device is what was last reported for it.\<close>

definition reported :: "tracker \<Rightarrow> bool" where
  "reported t \<longleftrightarrow>
     currentConnected t = Some (targetConnected t) \<and> currentWorkerId t = Some (targetWorkerId t)"

definition loops_inv :: "clients_state \<Rightarrow> bool" where
  "loops_inv st \<longleftrightarrow> length (loops st) = (if currentlyReporting st then 1 else 0) \<and>
     (pendingUpdates st \<noteq> [] \<longrightarrow> currentlyReporting st) \<and>
     (\<forall>sid. AwaitReports sid [] \<notin> set (loops st))"

definition tracked_inv :: "clients_state \<Rightarrow> bool" where
  "tracked_inv st \<longleftrightarrow> distinct (pendingUpdates st) \<and> distinct (in_flight st) \<and>
     set (pendingUpdates st) \<union> set (in_flight st) \<subseteq> dom (map_of (deviceStates st))"

definition flight_inv :: "clients_state \<Rightarrow> bool" where
  "flight_inv st \<longleftrightarrow>
     (\<forall>p \<in> set (outstanding st). \<forall>u \<in> set (post_uuids p). \<forall>t.
        map_of (deviceStates st) u = Some t \<longrightarrow> targetConnected t \<noteq> post_connected p \<longrightarrow>
        u \<in> set (pendingUpdates st)) \<and>
     (\<forall>u t. map_of (deviceStates st) u = Some t \<longrightarrow> u \<notin> set (pendingUpdates st) \<longrightarrow>
        u \<notin> set (in_flight st) \<longrightarrow> reported t)"

definition clients_inv :: "clients_state \<Rightarrow> bool" where
  "clients_inv st \<longleftrightarrow> loops_inv st \<and> tracked_inv st \<and> flight_inv st"

lemmas clients_inv_defs = clients_inv_def loops_inv_def tracked_inv_def flight_inv_def

lemma not_needs_update: "\<not> needs_update t \<Longrightarrow> reported t"
  by (auto simp: needs_update_def reported_def worker_differs_def split: option.splits)

lemma chunk_loop_done: "\<not> i < int (length arr) \<Longrightarrow> chunk_loop arr sz i res = Some res"
  by (subst chunk_loop.simps) simp

lemma chunk_Some:
  assumes "chunk arr sz = Some cs"
  shows "concat cs = arr" and "c \<in> set cs \<Longrightarrow> c \<noteq> [] \<and> int (length c) \<le> sz"
    and "length cs \<le> length arr"
proof -
  have "(0 < sz \<and> cs = chunks_of (nat sz) arr) \<or> (arr = [] \<and> cs = [])"
  proof (cases "0 < sz")
    case True
    then show ?thesis using assms chunk_eq [of sz arr] by simp
  next
    case False
    then show ?thesis
      using assms chunk_loop_diverges [of sz 0 arr "[]"]
      by (cases arr) (auto simp: chunk_def chunk_loop_done)
  qed
  then show "concat cs = arr" and "c \<in> set cs \<Longrightarrow> c \<noteq> [] \<and> int (length c) \<le> sz"
    and "length cs \<le> length arr"
    using chunks_of_props(1,3) [where n = "nat sz" and xs = arr]
      chunks_of_props(2) [where n = "nat sz" and xs = arr and c = c] by auto
qed

lemma reportUpdates_Some:
  assumes "reportUpdates cfg sid us c = Some ps"
  shows "concat (map post_uuids ps) = us" and "length ps \<le> length us"
    and "p \<in> set ps \<Longrightarrow> post_connected p = c \<and> post_serviceId p = sid \<and> post_uuids p \<noteq> [] \<and>
      int (length (post_uuids p)) \<le> batch_size cfg"
  using assms chunk_Some [of us "batch_size cfg"]
  by (auto simp: reportUpdates_def comp_def split: if_splits)

lemma reportUpdates_member:
  assumes "reportUpdates cfg sid us c = Some ps" "p \<in> set ps" "u \<in> set (post_uuids p)"
  shows "u \<in> set us"
  using assms(2,3) unfolding reportUpdates_Some(1) [OF assms(1), symmetric] by auto

definition due_uuids :: "clients_state \<Rightarrow> bool \<Rightarrow> string list" where
  "due_uuids st c = filter (\<lambda>u. needs_update (tracker_of st u) \<and> targetConnected (tracker_of st u) = c)
     (pendingUpdates st)"

text \<open>The one way \<open>updateLoop\<close> does something: it is idle, every pending device is tracked,
  and the devices whose state has to be reported go out in requests.\<close>

lemma updateLoop_launch:
  assumes "\<not> currentlyReporting st" "pendingUpdates st \<noteq> []"
    and "set (pendingUpdates st) \<subseteq> dom (map_of (deviceStates st))"
  shows "updateLoop cfg sid st =
    (case (reportUpdates cfg sid (due_uuids st False) False,
           reportUpdates cfg sid (due_uuids st True) True) of
       (Some ds, Some cs) \<Rightarrow>
         Some (st\<lparr>currentlyReporting := True, pendingUpdates := [],
                 loops := loops st @ [await_rest sid (ds @ cs)]\<rparr>, ds @ cs)
     | _ \<Rightarrow> None)"
proof -
  have tracked: "(\<exists>u \<in> set (pendingUpdates st). map_of (deviceStates st) u = None) = False"
    using assms(3) by (auto simp: dom_def)
  have dues: "filter (\<lambda>u. targetConnected (tracker_of st u))
      (filter (\<lambda>u. needs_update (tracker_of st u)) (pendingUpdates st)) = due_uuids st True"
    "filter (\<lambda>u. \<not> targetConnected (tracker_of st u))
      (filter (\<lambda>u. needs_update (tracker_of st u)) (pendingUpdates st)) = due_uuids st False"
    by (auto simp: due_uuids_def conj_commute intro!: filter_cong)
  show ?thesis
    unfolding updateLoop_def tracked Let_def dues using assms(1,2)
    by (simp add: await_rest_def split: option.splits)
qed

lemma await_rest_simps [simp]:
  "loop_posts (await_rest sid ps) = ps"
  "AwaitReports sid' [] \<noteq> await_rest sid ps"
  by (auto simp: await_rest_def)

lemma updateLoop_inv:
  assumes "loops st = []" "\<not> currentlyReporting st" "tracked_inv st" "flight_inv st"
    and "updateLoop cfg sid st = Some (st', ps)"
  shows "clients_inv st'"
proof (cases "pendingUpdates st = []")
  case True
  then show ?thesis
    using assms by (auto simp: updateLoop_def clients_inv_def loops_inv_def)
next
  case False
  have dom: "set (pendingUpdates st) \<subseteq> dom (map_of (deviceStates st))"
    using assms(3) by (auto simp: tracked_inv_def)
  obtain ds cs where ds: "reportUpdates cfg sid (due_uuids st False) False = Some ds"
    and cs: "reportUpdates cfg sid (due_uuids st True) True = Some cs"
    and st': "st' = st\<lparr>currentlyReporting := True, pendingUpdates := [],
      loops := [await_rest sid (ds @ cs)]\<rparr>"
    using assms(1,5) updateLoop_launch [OF assms(2) False dom, of cfg sid]
    by (auto split: option.splits)
  have out: "outstanding st' = ds @ cs"
    by (simp add: st' outstanding_def)
  have fl: "in_flight st' = due_uuids st False @ due_uuids st True"
    using reportUpdates_Some(1) [OF ds] reportUpdates_Some(1) [OF cs] by (simp add: in_flight_def out)
  have "loops_inv st'" by (simp add: loops_inv_def st')
  moreover have "tracked_inv st'"
    using assms(3) fl dom by (auto simp: tracked_inv_def st' due_uuids_def)
  moreover have "flight_inv st'"
    unfolding flight_inv_def
  proof (intro conjI allI impI ballI)
    fix p u t
    assume p: "p \<in> set (outstanding st')" "u \<in> set (post_uuids p)"
      and t: "map_of (deviceStates st') u = Some t" "targetConnected t \<noteq> post_connected p"
    have "u \<in> set (due_uuids st (post_connected p))"
    proof (cases "p \<in> set ds")
      case True
      then show ?thesis using p reportUpdates_member [OF ds] reportUpdates_Some(3) [OF ds True] by auto
    next
      case False
      then have "p \<in> set cs" using p out by simp
      then show ?thesis using p reportUpdates_member [OF cs] reportUpdates_Some(3) [OF cs] by auto
    qed
    with t show "u \<in> set (pendingUpdates st')"
      by (auto simp: due_uuids_def tracker_of_def st')
  next
    fix u t
    assume u: "map_of (deviceStates st') u = Some t" "u \<notin> set (in_flight st')"
    have "u \<notin> set (in_flight st)" by (simp add: in_flight_def outstanding_def assms(1))
    with u show "reported t"
      using assms(4) not_needs_update [of t] unfolding fl
      by (cases "u \<in> set (pendingUpdates st)")
         (auto simp: flight_inv_def st' due_uuids_def tracker_of_def)
  qed
  ultimately show ?thesis by (simp add: clients_inv_def)
qed

lemma setConnected_inv:
  assumes inv: "clients_inv st" and call: "setConnected cfg u sid wid c st = Some (st', ps)"
  shows "clients_inv st'"
proof -
  obtain t where t: "updateLoop cfg sid (st\<lparr>deviceStates := AList.update u t (deviceStates st),
      pendingUpdates := set_add u (pendingUpdates st)\<rparr>) = Some (st', ps)"
    using call by (auto simp: setConnected_def Let_def)
  define st1 where "st1 = st\<lparr>deviceStates := AList.update u t (deviceStates st),
      pendingUpdates := set_add u (pendingUpdates st)\<rparr>"
  have same: "outstanding st1 = outstanding st" "in_flight st1 = in_flight st"
    by (simp_all add: st1_def outstanding_def in_flight_def)
  have "tracked_inv st1"
    using inv unfolding clients_inv_def tracked_inv_def same by (auto simp: st1_def)
  moreover have "flight_inv st1"
    using inv unfolding clients_inv_def flight_inv_def same by (auto simp: st1_def)
  ultimately show ?thesis
    using inv t updateLoop_inv [of st1 cfg sid st' ps]
    by (cases "currentlyReporting st")
       (auto simp: clients_inv_def loops_inv_def updateLoop_def st1_def)
qed

abbreviation mark_tracker :: "bool \<Rightarrow> tracker \<Rightarrow> tracker" where
  "mark_tracker c t \<equiv> t\<lparr>currentConnected := Some c, currentWorkerId := Some (targetWorkerId t)\<rparr>"

lemma mark_reported_tracked:
  assumes "set us \<subseteq> dom (map_of ds)"
  shows "\<exists>ds'. mark_reported c us ds = (ds', True) \<and>
    map_of ds' = (\<lambda>v. if v \<in> set us then map_option (mark_tracker c) (map_of ds v) else map_of ds v)"
  using assms
proof (induction us arbitrary: ds)
  case (Cons u us)
  then obtain t where t: "map_of ds u = Some t" by auto
  let ?ds = "AList.update u (mark_tracker c t) ds"
  have "set us \<subseteq> dom (map_of ?ds)" using Cons.prems by (auto simp: dom_def)
  then obtain ds' where ds': "mark_reported c us ?ds = (ds', True)"
    and upd: "map_of ds' = (\<lambda>v. if v \<in> set us then map_option (mark_tracker c) (map_of ?ds v) else map_of ?ds v)"
    using Cons.IH by blast
  have "map_of ds' v = (if v \<in> set (u # us) then map_option (mark_tracker c) (map_of ds v) else map_of ds v)" for v
    unfolding upd using t by (cases "v = u") auto
  then show ?case using ds' t by auto
qed auto

text \<open>The two outcomes of a request, on a state where its devices are tracked.\<close>

lemma settle_post_ok:
  assumes "set (post_uuids p) \<subseteq> dom (map_of (deviceStates st))"
  shows "\<exists>ds. settle_post p (Status 200) st = st\<lparr>deviceStates := ds\<rparr> \<and>
    map_of ds = (\<lambda>v. if v \<in> set (post_uuids p)
      then map_option (mark_tracker (post_connected p)) (map_of (deviceStates st) v)
      else map_of (deviceStates st) v)"
  using mark_reported_tracked [OF assms, of "post_connected p"] by (auto simp: settle_post_def)

lemma settle_post_failed:
  "out \<noteq> Status 200 \<Longrightarrow> settle_post p out st =
     st\<lparr>pendingUpdates := fold set_add (post_uuids p) (pendingUpdates st)\<rparr>"
  by (simp add: settle_post_def)

text \<open>What the invariant says of the request that settles: its devices are tracked, no other
  outstanding request carries them, and the loop holds the flag.\<close>

lemma settled_facts:
  assumes "clients_inv st" and "loops st = [AwaitReports sid (as @ p # bs)]"
    and "outstanding st' = as @ bs"
  shows "set (post_uuids p) \<subseteq> dom (map_of (deviceStates st))"
    and "set (post_uuids p) \<inter> set (in_flight st') = {}" and "distinct (in_flight st')"
    and "set (in_flight st) = set (in_flight st') \<union> set (post_uuids p)"
    and "currentlyReporting st"
proof -
  have out: "outstanding st = as @ p # bs" by (simp add: outstanding_def assms(2))
  show "set (post_uuids p) \<subseteq> dom (map_of (deviceStates st))"
    and "set (post_uuids p) \<inter> set (in_flight st') = {}" and "distinct (in_flight st')"
    and "set (in_flight st) = set (in_flight st') \<union> set (post_uuids p)"
    using assms(1) by (auto simp: clients_inv_defs in_flight_def out assms(3))
  show "currentlyReporting st"
    using assms(1) by (simp add: clients_inv_defs assms(2) split: if_splits)
qed

lemma flight_invD:
  assumes "flight_inv st"
  shows "q \<in> set (outstanding st) \<Longrightarrow> u \<in> set (post_uuids q) \<Longrightarrow>
      map_of (deviceStates st) u = Some t \<Longrightarrow> targetConnected t \<noteq> post_connected q \<Longrightarrow>
      u \<in> set (pendingUpdates st)"
    and "map_of (deviceStates st) u = Some t \<Longrightarrow> u \<notin> set (pendingUpdates st) \<Longrightarrow>
      u \<notin> set (in_flight st) \<Longrightarrow> reported t"
  using assms unfolding flight_inv_def by blast+

lemma settled_ok_inv:
  assumes inv: "clients_inv st" and l: "loops st = [AwaitReports sid (as @ p # bs)]"
    and st': "st' = (settle_post p (Status 200) st)\<lparr>loops := [await_rest sid (as @ bs)]\<rparr>"
  shows "clients_inv st'"
proof -
  have out: "outstanding st = as @ p # bs" "outstanding st' = as @ bs"
    by (simp_all add: outstanding_def l st')
  note facts = settled_facts [OF inv l out(2)]
  note flight = flight_invD [of st, unfolded out]
  obtain ds where ds: "st' = st\<lparr>deviceStates := ds, loops := [await_rest sid (as @ bs)]\<rparr>"
    and upd: "map_of ds = (\<lambda>v. if v \<in> set (post_uuids p)
      then map_option (mark_tracker (post_connected p)) (map_of (deviceStates st) v)
      else map_of (deviceStates st) v)"
    using settle_post_ok [OF facts(1)] st' by auto
  have "dom (map_of ds) = dom (map_of (deviceStates st))" by (auto simp: upd split: if_splits)
  then have "tracked_inv st'"
    using inv facts by (auto simp: clients_inv_def tracked_inv_def ds)
  moreover have "u \<in> set (pendingUpdates st')"
    if "q \<in> set (as @ bs)" "u \<in> set (post_uuids q)" "map_of (deviceStates st') u = Some t"
      "targetConnected t \<noteq> post_connected q" for q u t
  proof -
    have "u \<notin> set (post_uuids p)" using facts(2) that by (auto simp: in_flight_def out)
    with that show ?thesis using inv flight(1) [of q u t] by (auto simp: clients_inv_def ds upd)
  qed
  moreover have "reported t"
    if u: "map_of (deviceStates st') u = Some t" "u \<notin> set (pendingUpdates st')" "u \<notin> set (in_flight st')" for u t
  proof (cases "u \<in> set (post_uuids p)")
    case True
    then obtain t0 where "map_of (deviceStates st) u = Some t0"
      "t = mark_tracker (post_connected p) t0" using u(1) by (auto simp: ds upd)
    then show ?thesis
      using inv flight(1) [of p u t0] True u(2) by (auto simp: clients_inv_def reported_def ds)
  next
    case False
    then show ?thesis using inv flight(2) [of u t] u facts(4) by (auto simp: clients_inv_def ds upd)
  qed
  ultimately show ?thesis
    using facts(5) unfolding clients_inv_def loops_inv_def flight_inv_def out by (simp add: ds)
qed

lemma settled_inv:
  assumes inv: "clients_inv st" and l: "loops st = [AwaitReports sid (as @ p # bs)]"
    and st': "st' = (settle_post p res st)\<lparr>loops := [await_rest sid (as @ bs)]\<rparr>"
  shows "clients_inv st'"
proof (cases "res = Status 200")
  case False
  have out: "outstanding st = as @ p # bs" "outstanding st' = as @ bs"
    by (simp_all add: outstanding_def l st')
  note facts = settled_facts [OF inv l out(2)]
  have ds: "st' = st\<lparr>pendingUpdates := fold set_add (post_uuids p) (pendingUpdates st),
      loops := [await_rest sid (as @ bs)]\<rparr>"
    using False st' settle_post_failed by simp
  have "tracked_inv st'"
    using inv facts by (auto simp: clients_inv_def tracked_inv_def ds)
  moreover have "flight_inv st'"
    using inv facts unfolding clients_inv_def flight_inv_def out by (auto simp: ds)
  ultimately show ?thesis
    using facts(5) by (simp add: clients_inv_def loops_inv_def ds)
qed (use assms settled_ok_inv in auto)

lemma loops_single:
  assumes "clients_inv st" "loops st = xs @ l # ys"
  shows "xs = []" "ys = []" "currentlyReporting st"
  using assms by (auto simp: clients_inv_defs split: if_splits)

lemma settled_invert:
  assumes inv: "clients_inv st" and step: "clients_trans cfg st (Settled p res, ps) st'"
  shows "\<exists>sid as bs. loops st = [AwaitReports sid (as @ p # bs)] \<and>
    st' = (settle_post p res st)\<lparr>loops := [await_rest sid (as @ bs)]\<rparr>"
  using step
proof (rule settledE)
  fix xs sid as bs ys
  assume l: "loops st = xs @ AwaitReports sid (as @ p # bs) # ys"
    and st': "st' = (settle_post p res st)\<lparr>loops := xs @ await_rest sid (as @ bs) # ys\<rparr>"
  note nil = loops_single(1,2) [OF inv l]
  show ?thesis using l st' unfolding nil append_Nil by blast
qed

lemma timer_invert:
  assumes inv: "clients_inv st" and step: "clients_trans cfg st (TimerFired, ps) st'"
  shows "\<exists>sid. loops st = [AwaitTimer sid] \<and>
    updateLoop cfg sid (st\<lparr>loops := [], currentlyReporting := False\<rparr>) = Some (st', ps)"
  using step
proof (rule timerE)
  fix xs sid ys
  assume l: "loops st = xs @ AwaitTimer sid # ys"
    and u: "updateLoop cfg sid (st\<lparr>loops := xs @ ys, currentlyReporting := False\<rparr>) = Some (st', ps)"
  note nil = loops_single(1,2) [OF inv l]
  show ?thesis using l u unfolding nil append_Nil by blast
qed

lemma clients_trans_inv:
  assumes inv: "clients_inv st" and step: "clients_trans cfg st e st'"
  shows "clients_inv st'"
proof -
  obtain ev ps where e: "e = (ev, ps)" by fastforce
  show ?thesis
  proof (cases ev)
    case (Call u sid wid c)
    with inv step show ?thesis unfolding e by (auto elim!: callE intro: setConnected_inv)
  next
    case (Settled p res)
    with settled_invert [OF inv] step show ?thesis unfolding e by (blast intro: settled_inv [OF inv])
  next
    case TimerFired
    then obtain sid where l: "loops st = [AwaitTimer sid]"
      and u: "updateLoop cfg sid (st\<lparr>loops := [], currentlyReporting := False\<rparr>) = Some (st', ps)"
      using timer_invert [OF inv] step unfolding e by blast
    let ?st = "st\<lparr>loops := [], currentlyReporting := False\<rparr>"
    have same: "outstanding ?st = outstanding st" "in_flight ?st = in_flight st"
      by (simp_all add: in_flight_def outstanding_def l)
    have "tracked_inv ?st" "flight_inv ?st"
      using inv unfolding clients_inv_def tracked_inv_def flight_inv_def same by simp_all
    then show ?thesis by (intro updateLoop_inv [OF _ _ _ _ u]) auto
  qed
qed

interpretation clients_machine: transition_invariant
  "\<lambda>s. s = clients_init" "clients_trans cfg" clients_inv
proof
  show "clients_inv s" if "s = clients_init" for s
    using that by (simp add: clients_inv_defs clients_init_def in_flight_def outstanding_def)
  show "clients_inv s'" if "clients_inv s" "clients_trans cfg s l s'" for s l s'
    using that by (rule clients_trans_inv)
qed

subsection \<open>Progress\<close>

lemma reportUpdates_total: "0 < batch_size cfg \<Longrightarrow> \<exists>ps. reportUpdates cfg sid us c = Some ps"
  by (simp add: reportUpdates_def chunk_eq)

lemma updateLoop_total:
  assumes "0 < batch_size cfg"
  shows "\<exists>r. updateLoop cfg sid st = Some r"
proof -
  obtain ds cs where
    "reportUpdates cfg sid (filter (\<lambda>u. \<not> targetConnected (tracker_of st u))
       (filter (\<lambda>u. needs_update (tracker_of st u)) (pendingUpdates st))) False = Some ds"
    "reportUpdates cfg sid (filter (\<lambda>u. targetConnected (tracker_of st u))
       (filter (\<lambda>u. needs_update (tracker_of st u)) (pendingUpdates st))) True = Some cs"
    using reportUpdates_total [OF assms] by meson
  then show ?thesis by (simp add: updateLoop_def Let_def)
qed

lemma setConnected_total: "0 < batch_size cfg \<Longrightarrow> \<exists>st' ps. setConnected cfg u sid wid c st = Some (st', ps)"
  using updateLoop_total by (fastforce simp: setConnected_def Let_def)

text \<open>A step that the environment can always take while nothing new happens and the API
  answers: a request is answered with status 200, or the timer fires.\<close>

definition quiet_trans :: "clients_config \<Rightarrow> clients_state \<Rightarrow> clients_state \<Rightarrow> bool" where
  "quiet_trans cfg st st' \<longleftrightarrow>
     (\<exists>p. clients_trans cfg st (Settled p (Status 200), []) st') \<or>
     (\<exists>ps. clients_trans cfg st (TimerFired, ps) st')"

definition quiet_measure :: "clients_state \<Rightarrow> nat" where
  "quiet_measure st =
     (if loops st = [] then 0 else length (outstanding st) + 1) +
     (if pendingUpdates st = [] then 0 else length (pendingUpdates st) + 2)"

lemma length_due_uuids: "length (due_uuids st False) + length (due_uuids st True) \<le> length (pendingUpdates st)"
proof -
  have "length (filter (\<lambda>u. P u \<and> Q u = False) us) + length (filter (\<lambda>u. P u \<and> Q u = True) us) \<le> length us"
    for P Q :: "string \<Rightarrow> bool" and us
    by (induction us) auto
  then show ?thesis unfolding due_uuids_def .
qed

lemma quiet_trans_decreases:
  assumes inv: "clients_inv st" and step: "quiet_trans cfg st st'"
  shows "quiet_measure st' < quiet_measure st"
  using step unfolding quiet_trans_def
proof (elim disjE exE)
  fix p
  assume "clients_trans cfg st (Settled p (Status 200), []) st'"
  from settled_invert [OF inv this] obtain sid as bs where l: "loops st = [AwaitReports sid (as @ p # bs)]"
    and st': "st' = (settle_post p (Status 200) st)\<lparr>loops := [await_rest sid (as @ bs)]\<rparr>" by blast
  have out: "outstanding st' = as @ bs" by (simp add: outstanding_def st')
  then show ?thesis
    using settle_post_ok [OF settled_facts(1) [OF inv l out]] st'
    by (auto simp: quiet_measure_def outstanding_def l)
next
  fix ps
  assume "clients_trans cfg st (TimerFired, ps) st'"
  from timer_invert [OF inv this] obtain sid where l: "loops st = [AwaitTimer sid]"
    and u: "updateLoop cfg sid (st\<lparr>loops := [], currentlyReporting := False\<rparr>) = Some (st', ps)" by blast
  let ?st = "st\<lparr>loops := [], currentlyReporting := False\<rparr>"
  show ?thesis
  proof (cases "pendingUpdates st = []")
    case True
    then show ?thesis using u by (auto simp: updateLoop_def quiet_measure_def l)
  next
    case False
    have dom: "set (pendingUpdates ?st) \<subseteq> dom (map_of (deviceStates ?st))"
      using inv by (auto simp: clients_inv_defs)
    obtain ds cs where ds: "reportUpdates cfg sid (due_uuids ?st False) False = Some ds"
      and cs: "reportUpdates cfg sid (due_uuids ?st True) True = Some cs"
      and st': "st' = ?st\<lparr>currentlyReporting := True, pendingUpdates := [],
        loops := [await_rest sid (ds @ cs)]\<rparr>"
      using u updateLoop_launch [OF _ _ dom, of cfg sid] False by (auto split: option.splits)
    have "length ds + length cs \<le> length (pendingUpdates st)"
      using reportUpdates_Some(2) [OF ds] reportUpdates_Some(2) [OF cs] length_due_uuids [of ?st] by simp
    then show ?thesis using False by (simp add: quiet_measure_def outstanding_def st' l)
  qed
qed

lemma quiet_run_bound:
  assumes "clients_inv st" "(quiet_trans cfg ^^ n) st st'"
  shows "clients_inv st' \<and> n + quiet_measure st' \<le> quiet_measure st"
  using assms(2)
proof (induction n arbitrary: st')
  case (Suc n)
  then obtain s where s: "(quiet_trans cfg ^^ n) st s" "quiet_trans cfg s st'" by auto
  then have "clients_inv s" "n + quiet_measure s \<le> quiet_measure st" using Suc.IH by auto
  then show ?case
    using quiet_trans_decreases [OF _ s(2)] s(2) clients_trans_inv unfolding quiet_trans_def by fastforce
qed (use assms in simp)

lemma quiet_stuck_reported:
  assumes inv: "clients_inv st" and b: "0 < batch_size cfg" and stuck: "\<nexists>st'. quiet_trans cfg st st'"
    and u: "map_of (deviceStates st) u = Some t"
  shows "reported t"
proof -
  have "loops st = []"
  proof (rule ccontr)
    assume "loops st \<noteq> []"
    then obtain l where l: "loops st = [l]"
      using inv by (cases "loops st") (auto simp: clients_inv_defs split: if_splits)
    show False
    proof (cases l)
      case (AwaitReports sid ps)
      moreover have "ps \<noteq> []" using inv l AwaitReports by (auto simp: clients_inv_defs)
      ultimately obtain p bs where "loops st = [] @ AwaitReports sid ([] @ p # bs) # []"
        using l by (cases ps) auto
      then show False using stuck clients_trans.settled unfolding quiet_trans_def by blast
    next
      case (AwaitTimer sid)
      obtain st' ps where "updateLoop cfg sid (st\<lparr>loops := [] @ [], currentlyReporting := False\<rparr>) = Some (st', ps)"
        using updateLoop_total [OF b] by force
      then show False
        using stuck clients_trans.timer [of st "[]" sid "[]" cfg st' ps] l AwaitTimer
        unfolding quiet_trans_def by auto
    qed
  qed
  then have "pendingUpdates st = []" "in_flight st = []"
    using inv by (auto simp: clients_inv_defs in_flight_def outstanding_def split: if_splits)
  then show ?thesis
    using inv flight_invD(2) [of st u t] u by (simp add: clients_inv_def)
qed

subsection \<open>Properties\<close>

text \<open>The configuration and first state the witnesses use: one device connects on worker 1.\<close>

definition demo_config :: clients_config where
  "demo_config = \<lparr> api_host = ''http://api'', vpn_service_api_key = ''key'', batch_size = 8000 \<rparr>"

definition demo_post :: device_post where
  "demo_post = \<lparr> post_url = ''http://api/services/vpn/client-connect'',
     post_authorization = ''Bearer key'', post_serviceId = 7, post_uuids = [''abcd''], post_connected = True \<rparr>"

definition demo_state :: clients_state where
  "demo_state =
     \<lparr> deviceStates = [(''abcd'', \<lparr> targetConnected = True, targetWorkerId = Some 1,
                          currentConnected = None, currentWorkerId = None \<rparr>)],
       pendingUpdates = [], currentlyReporting = True,
       loops = [AwaitReports 7 [demo_post]] \<rparr>"

lemma chunk_one: "0 < sz \<Longrightarrow> chunk [u] sz = Some [[u]]"
  by (simp add: chunk_eq chunks_of.simps)

lemma demo_call: "setConnected demo_config ''abcd'' 7 (Some 1) True clients_init = Some (demo_state, [demo_post])"
  by (simp add: setConnected_def updateLoop_def reportUpdates_def Let_def clients_init_def demo_config_def
      demo_state_def demo_post_def set_add_def tracker_of_def needs_update_def chunk_one)

lemma demo_reach: "clients_reach demo_config demo_state"
  by (rule reach_step [where s = clients_init])
     (auto intro: reach_start clients_trans.call [OF demo_call])

definition demo_done :: clients_state where
  "demo_done =
     \<lparr> deviceStates = [(''abcd'', \<lparr> targetConnected = True, targetWorkerId = Some 1,
                          currentConnected = Some True, currentWorkerId = Some (Some 1) \<rparr>)],
       pendingUpdates = [], currentlyReporting = False, loops = [] \<rparr>"

lemma demo_quiet: "(quiet_trans demo_config ^^ 2) demo_state demo_done"
proof -
  let ?s = "demo_done\<lparr>currentlyReporting := True, loops := [AwaitTimer 7]\<rparr>"
  have "clients_trans demo_config demo_state (Settled demo_post (Status 200), []) ?s"
    by (rule clients_trans.settled [of _ "[]" 7 "[]" _ "[]" "[]"])
       (simp_all add: demo_state_def demo_done_def demo_post_def settle_post_def await_rest_def)
  moreover have "clients_trans demo_config ?s (TimerFired, []) demo_done"
    by (rule clients_trans.timer [of _ "[]" 7 "[]"]) (simp_all add: demo_done_def updateLoop_def)
  ultimately have "quiet_trans demo_config demo_state ?s" "quiet_trans demo_config ?s demo_done"
    unfolding quiet_trans_def by blast+
  then show ?thesis by (auto simp: numeral_2_eq_2)
qed

lemma demo_stuck: "\<nexists>st. quiet_trans demo_config demo_done st"
  by (auto simp: quiet_trans_def demo_done_def elim: settledE timerE)

text \<open>C6. No update is ever lost: in every reachable state, under any interleaving of calls,
  answers, failures and timers, a device whose target state differs from what was last
  reported is either waiting in \<open>pendingUpdates\<close> or part of an outstanding request, and an
  \<open>updateLoop\<close> that will deal with it is running.\<close>

theorem no_lost_update:
  assumes "clients_reach cfg st" and "map_of (deviceStates st) u = Some t" and "\<not> reported t"
  shows "loops st \<noteq> [] \<and> (u \<in> set (pendingUpdates st) \<or> u \<in> set (in_flight st))"
proof -
  have inv: "clients_inv st" using assms(1) by (rule clients_machine.reach_inv)
  then have u: "u \<in> set (pendingUpdates st) \<or> u \<in> set (in_flight st)"
    using assms(2,3) flight_invD(2) [of st u t] by (auto simp: clients_inv_def)
  moreover have "loops st \<noteq> []"
    using inv u by (auto simp: clients_inv_defs in_flight_def outstanding_def)
  ultimately show ?thesis by simp
qed

theorem no_lost_update_witness:
  "loops demo_state \<noteq> [] \<and>
     (''abcd'' \<in> set (pendingUpdates demo_state) \<or> ''abcd'' \<in> set (in_flight demo_state))"
  by (rule no_lost_update [OF demo_reach, where t = "\<lparr> targetConnected = True, targetWorkerId = Some 1,
        currentConnected = None, currentWorkerId = None \<rparr>"])
     (simp_all add: demo_state_def reported_def)

text \<open>C23. Reports never overlap: at most one \<open>updateLoop\<close> is suspended, exactly when
  \<open>currentlyReporting\<close> is set; no device is in two outstanding requests; and every device that
  is pending or in flight has a tracker, so the non-null assertions of the code hold.\<close>

theorem single_reporter:
  assumes "clients_reach cfg st"
  shows "length (loops st) = (if currentlyReporting st then 1 else 0) \<and> distinct (in_flight st) \<and>
    set (pendingUpdates st) \<union> set (in_flight st) \<subseteq> dom (map_of (deviceStates st))"
  using clients_machine.reach_inv [OF assms] by (simp add: clients_inv_defs)

theorem single_reporter_witness:
  "length (loops demo_state) = (if currentlyReporting demo_state then 1 else 0) \<and>
     distinct (in_flight demo_state) \<and>
     set (pendingUpdates demo_state) \<union> set (in_flight demo_state) \<subseteq> dom (map_of (deviceStates demo_state))"
  by (rule single_reporter [OF demo_reach])

text \<open>C7. Reporting converges: with a positive batch size, once no further calls are made and
  the API answers every request with 200, the loop takes a bounded number of steps, and when it
  can take no more the last reported state of every device is its target state.\<close>

theorem reporting_converges:
  assumes "clients_reach cfg st" and "0 < batch_size cfg" and "(quiet_trans cfg ^^ n) st st'"
  shows "n \<le> quiet_measure st \<and>
    ((\<nexists>st''. quiet_trans cfg st' st'') \<longrightarrow>
     (\<forall>u t. map_of (deviceStates st') u = Some t \<longrightarrow> reported t))"
proof -
  have "clients_inv st" using assms(1) by (rule clients_machine.reach_inv)
  with assms(3) have "clients_inv st'" "n \<le> quiet_measure st"
    using quiet_run_bound by fastforce+
  then show ?thesis using quiet_stuck_reported [OF _ assms(2)] by blast
qed

theorem reporting_converges_witness:
  "2 \<le> quiet_measure demo_state \<and> reported (tracker_of demo_done ''abcd'')"
  using reporting_converges [OF demo_reach _ demo_quiet] demo_stuck
  by (simp add: demo_config_def tracker_of_def) (simp add: demo_done_def)

text \<open>C24. \<open>chunk\<close> returns exactly when the batch size is positive (or there is nothing to
  report), and then it returns the array cut into non-empty pieces of at most that size, in
  order; with a batch size of zero or less its loop never ends.\<close>

theorem chunk_spec:
  "(case chunk arr sz of
      None \<Rightarrow> sz \<le> 0 \<and> arr \<noteq> []
    | Some cs \<Rightarrow> (0 < sz \<or> arr = []) \<and> concat cs = arr \<and>
        list_all (\<lambda>c. c \<noteq> [] \<and> int (length c) \<le> sz) cs)"
proof (cases "chunk arr sz")
  case None
  then show ?thesis
    using chunk_eq [of sz arr] by (cases "0 < sz") (auto simp: chunk_def chunk_loop_done)
next
  case (Some cs)
  have "0 < sz \<or> arr = []"
    using Some chunk_loop_diverges [of sz 0 arr "[]"] by (cases "sz \<le> 0"; cases arr) (auto simp: chunk_def)
  then show ?thesis using Some chunk_Some [OF Some] by (simp add: list_all_iff)
qed

subsection \<open>A change during a report\<close>

text \<open>Runs of events of a kind, with the requests that they issue.\<close>

inductive clients_run ::
  "clients_config \<Rightarrow> (clients_event \<Rightarrow> bool) \<Rightarrow> clients_state \<Rightarrow> device_post list \<Rightarrow> clients_state \<Rightarrow> bool"
  for cfg :: clients_config and kind :: "clients_event \<Rightarrow> bool" where
  run_none: "clients_run cfg kind st [] st"
| run_more: "clients_run cfg kind st ps st' \<Longrightarrow> kind ev \<Longrightarrow> clients_trans cfg st' (ev, qs) st'' \<Longrightarrow>
    clients_run cfg kind st (ps @ qs) st''"

definition not_about :: "string \<Rightarrow> clients_event \<Rightarrow> bool" where
  "not_about u ev \<longleftrightarrow> (\<forall>sid wid c. ev \<noteq> Call u sid wid c)"

definition not_answered :: "device_post \<Rightarrow> clients_event \<Rightarrow> bool" where
  "not_answered p ev \<longleftrightarrow> (\<forall>res. ev \<noteq> Settled p res)"

text \<open>The steps of the machine as seen by one device: what happens to its tracker and which requests
  name it.\<close>

lemma updateLoop_device:
  assumes "updateLoop cfg sid st = Some (st', ps)" "map_of (deviceStates st) u = Some t"
  shows "deviceStates st' = deviceStates st \<and> outstanding st' = outstanding st @ ps \<and>
    (currentlyReporting st \<longrightarrow> ps = []) \<and>
    (\<not> needs_update t \<longrightarrow> (\<forall>q \<in> set ps. u \<notin> set (post_uuids q)))"
proof (cases "currentlyReporting st \<or> pendingUpdates st = [] \<or>
    \<not> set (pendingUpdates st) \<subseteq> dom (map_of (deviceStates st))")
  case True
  have "(\<exists>v \<in> set (pendingUpdates st). map_of (deviceStates st) v = None) \<longleftrightarrow>
      \<not> set (pendingUpdates st) \<subseteq> dom (map_of (deviceStates st))" by auto
  then show ?thesis
    using assms(1) True unfolding updateLoop_def by (auto simp: outstanding_def split: if_splits)
next
  case False
  then obtain ds cs where
    ds: "reportUpdates cfg sid (due_uuids st False) False = Some ds"
    and cs: "reportUpdates cfg sid (due_uuids st True) True = Some cs"
    and st': "st' = st\<lparr>currentlyReporting := True, pendingUpdates := [],
        loops := loops st @ [await_rest sid (ds @ cs)]\<rparr>" and ps: "ps = ds @ cs"
    using assms(1) updateLoop_launch [of st cfg sid] by (auto split: option.splits)
  have "u \<notin> set (due_uuids st c)" if "\<not> needs_update t" for c
    using that assms(2) by (auto simp: due_uuids_def tracker_of_def)
  then have "\<forall>q \<in> set ps. u \<notin> set (post_uuids q)" if "\<not> needs_update t"
    using that reportUpdates_member [OF ds] reportUpdates_member [OF cs] unfolding ps set_append by blast
  then show ?thesis using False by (auto simp: st' ps outstanding_def)
qed

lemma call_device:
  assumes "setConnected cfg v sid wid c st = Some (st', ps)" "map_of (deviceStates st) u = Some t"
  shows "\<exists>t'. map_of (deviceStates st') u = Some t' \<and>
    t' = (if v = u then t\<lparr>targetConnected := c, targetWorkerId := wid\<rparr> else t) \<and>
    outstanding st' = outstanding st @ ps \<and> (currentlyReporting st \<longrightarrow> ps = []) \<and>
    (\<not> needs_update t' \<longrightarrow> (\<forall>q \<in> set ps. u \<notin> set (post_uuids q)))"
proof -
  let ?t = "if v = u then t\<lparr>targetConnected := c, targetWorkerId := wid\<rparr> else t"
  obtain x where upd: "updateLoop cfg sid (st\<lparr>deviceStates := AList.update v x (deviceStates st),
      pendingUpdates := set_add v (pendingUpdates st)\<rparr>) = Some (st', ps)"
    and x: "x = (case map_of (deviceStates st) v of
        None \<Rightarrow> \<lparr> targetConnected = c, targetWorkerId = wid, currentConnected = None, currentWorkerId = None \<rparr>
      | Some t \<Rightarrow> t\<lparr>targetConnected := c, targetWorkerId := wid\<rparr>)"
    using assms(1) by (auto simp: setConnected_def Let_def)
  have "map_of (deviceStates (st\<lparr>deviceStates := AList.update v x (deviceStates st),
      pendingUpdates := set_add v (pendingUpdates st)\<rparr>)) u = Some ?t"
    using assms(2) by (auto simp: x update_conv')
  from updateLoop_device [OF upd this] this show ?thesis by (auto simp: outstanding_def)
qed

lemma settled_device:
  assumes inv: "clients_inv st" and step: "clients_trans cfg st (Settled q res, ps) st'"
    and u: "map_of (deviceStates st) u = Some t"
  shows "ps = [] \<and> (\<exists>as bs. outstanding st = as @ q # bs \<and> outstanding st' = as @ bs) \<and>
    set (post_uuids q) \<inter> set (in_flight st') = {} \<and>
    map_of (deviceStates st') u =
      Some (if u \<in> set (post_uuids q) \<and> res = Status 200 then mark_tracker (post_connected q) t else t)"
proof -
  obtain sid as bs where l: "loops st = [AwaitReports sid (as @ q # bs)]"
    and st': "st' = (settle_post q res st)\<lparr>loops := [await_rest sid (as @ bs)]\<rparr>"
    using settled_invert [OF inv step] by blast
  have out: "outstanding st = as @ q # bs" "outstanding st' = as @ bs"
    by (simp_all add: outstanding_def l st')
  note facts = settled_facts [OF inv l out(2)]
  have "map_of (deviceStates st') u =
      Some (if u \<in> set (post_uuids q) \<and> res = Status 200 then mark_tracker (post_connected q) t else t)"
    using settle_post_ok [OF facts(1)] u st' by (cases "res = Status 200") (auto simp: settle_post_failed)
  moreover have "ps = []" using step by (rule settledE)
  ultimately show ?thesis using out facts(2) by blast
qed

text \<open>While the request is unanswered, nothing is issued and the device keeps its target.\<close>

lemma unanswered_run:
  assumes "clients_run cfg (\<lambda>ev. not_about u ev \<and> not_answered p ev) st ps st'" "clients_inv st"
    and "p \<in> set (outstanding st)" "u \<in> set (post_uuids p)" "map_of (deviceStates st) u = Some t"
  shows "ps = [] \<and> clients_inv st' \<and> p \<in> set (outstanding st') \<and> map_of (deviceStates st') u = Some t"
  using assms
proof (induction rule: clients_run.induct)
  case (run_more st ps s ev qs s')
  then have IH: "ps = []" "clients_inv s" "p \<in> set (outstanding s)" "map_of (deviceStates s) u = Some t" by auto
  have inv: "clients_inv s'" by (rule clients_trans_inv [OF IH(2) run_more.hyps(3)])
  have busy: "currentlyReporting s"
    using IH(2,3) by (auto simp: clients_inv_defs outstanding_def split: if_splits)
  show ?case
  proof (cases ev)
    case (Call v sid wid c)
    then have "setConnected cfg v sid wid c s = Some (s', qs)" "v \<noteq> u"
      using run_more.hyps(2,3) by (auto simp: not_about_def elim: callE)
    then show ?thesis using call_device [OF _ IH(4), of cfg v sid wid c s' qs] IH busy inv by auto
  next
    case (Settled q res)
    then have q: "q \<noteq> p" using run_more.hyps(2) by (auto simp: not_answered_def)
    from settled_device [OF IH(2) run_more.hyps(3) [unfolded Settled] IH(4)] obtain as bs where
      *: "qs = []" "outstanding s = as @ q # bs" "outstanding s' = as @ bs"
      "set (post_uuids q) \<inter> set (in_flight s') = {}"
      "map_of (deviceStates s') u =
         Some (if u \<in> set (post_uuids q) \<and> res = Status 200 then mark_tracker (post_connected q) t else t)"
      by blast
    have p: "p \<in> set (outstanding s')" using IH(3) q *(2,3) by auto
    then have "u \<in> set (in_flight s')" using run_more.prems(3) by (auto simp: in_flight_def)
    then show ?thesis using *(1,4,5) p IH(1) inv by auto
  next
    case TimerFired
    then obtain sid where "loops s = [AwaitTimer sid]" using timer_invert [OF IH(2)] run_more.hyps(3) by blast
    then show ?thesis using IH(3) by (simp add: outstanding_def)
  qed
qed simp

text \<open>A device whose tracker needs no update and that is in no request stays like that.\<close>

lemma settled_run:
  assumes "clients_run cfg (not_about u) st ps st'" "clients_inv st"
    and "u \<notin> set (in_flight st)" "map_of (deviceStates st) u = Some t" "\<not> needs_update t"
  shows "(\<forall>q \<in> set ps. u \<notin> set (post_uuids q)) \<and> clients_inv st' \<and> u \<notin> set (in_flight st') \<and>
    map_of (deviceStates st') u = Some t"
  using assms
proof (induction rule: clients_run.induct)
  case (run_more st ps s ev qs s')
  then have IH: "\<forall>q \<in> set ps. u \<notin> set (post_uuids q)" "clients_inv s" "u \<notin> set (in_flight s)"
    "map_of (deviceStates s) u = Some t" and t: "\<not> needs_update t" by auto
  have inv: "clients_inv s'" by (rule clients_trans_inv [OF IH(2) run_more.hyps(3)])
  have "(\<forall>q \<in> set qs. u \<notin> set (post_uuids q)) \<and> u \<notin> set (in_flight s') \<and> map_of (deviceStates s') u = Some t"
  proof (cases ev)
    case (Call v sid wid c)
    then have "setConnected cfg v sid wid c s = Some (s', qs)" "v \<noteq> u"
      using run_more.hyps(2,3) by (auto simp: not_about_def elim: callE)
    then show ?thesis using call_device [OF _ IH(4), of cfg v sid wid c s' qs] IH(3) t by (auto simp: in_flight_def)
  next
    case (Settled q res)
    from settled_device [OF IH(2) run_more.hyps(3) [unfolded Settled] IH(4)] IH(3) show ?thesis
      by (auto simp: in_flight_def)
  next
    case TimerFired
    then obtain sid where l: "loops s = [AwaitTimer sid]"
      and upd: "updateLoop cfg sid (s\<lparr>loops := [], currentlyReporting := False\<rparr>) = Some (s', qs)"
      using timer_invert [OF IH(2)] run_more.hyps(3) by blast
    show ?thesis
      using updateLoop_device [OF upd, of u t] IH(3,4) t by (auto simp: in_flight_def outstanding_def l)
  qed
  with IH(1) inv show ?case by auto
qed auto

text \<open>C37. A change of worker during a report is not reported if that report succeeds.  Let a report that
  names a device be outstanding when the device connects (or disconnects) again, with the same
  state and on any worker whose id is a number.  Whatever else happens until the report is
  answered, when it is answered with status 200 the tracker is marked with the \<^emph>\<open>new\<close> worker; and
  from the second call on, until there is another call about the device, no request that names
  it is issued, so that the only report the API has of it was made before the second call.\<close>

theorem reconnect_during_report_not_resent:
  assumes "clients_reach cfg s0" and "p \<in> set (outstanding s0)" and "u \<in> set (post_uuids p)"
    and "clients_trans cfg s0 (Call u sid (Some w) (post_connected p), ps0) s1"
    and "clients_run cfg (\<lambda>ev. not_about u ev \<and> not_answered p ev) s1 ps1 s2"
    and "clients_trans cfg s2 (Settled p (Status 200), ps2) s3"
    and "clients_run cfg (not_about u) s3 ps3 s4"
  shows "(\<forall>q \<in> set (ps0 @ ps1 @ ps2 @ ps3). u \<notin> set (post_uuids q)) \<and>
    (\<exists>t. map_of (deviceStates s4) u = Some t \<and>
       targetWorkerId t = Some w \<and> currentWorkerId t = Some (Some w) \<and> reported t)"
proof -
  have inv0: "clients_inv s0" using assms(1) by (rule clients_machine.reach_inv)
  then have inv1: "clients_inv s1" by (rule clients_trans_inv [OF _ assms(4)])
  have "u \<in> set (in_flight s0)" using assms(2,3) by (auto simp: in_flight_def)
  then obtain t0 where t0: "map_of (deviceStates s0) u = Some t0"
    using inv0 by (auto simp: clients_inv_defs)
  have busy: "currentlyReporting s0"
    using inv0 assms(2) by (auto simp: clients_inv_defs outstanding_def split: if_splits)
  define t where "t = t0\<lparr>targetConnected := post_connected p, targetWorkerId := Some w\<rparr>"
  have "setConnected cfg u sid (Some w) (post_connected p) s0 = Some (s1, ps0)"
    using assms(4) by (rule callE)
  from call_device [OF this t0] busy assms(2)
  have 1: "ps0 = []" "p \<in> set (outstanding s1)" "map_of (deviceStates s1) u = Some t" by (auto simp: t_def)
  note 2 = unanswered_run [OF assms(5) inv1 1(2) assms(3) 1(3)]
  then have inv2: "clients_inv s2" and t2: "map_of (deviceStates s2) u = Some t" by auto
  let ?t = "mark_tracker (post_connected p) t"
  have 3: "ps2 = []" "u \<notin> set (in_flight s3)" "map_of (deviceStates s3) u = Some ?t"
    using settled_device [OF inv2 assms(6) t2] assms(3) by auto
  have "\<not> needs_update ?t" by (simp add: needs_update_def worker_differs_def t_def)
  from settled_run [OF assms(7) clients_trans_inv [OF inv2 assms(6)] 3(2,3) this]
  show ?thesis using 1(1) 2 3(1) by (auto simp: reported_def t_def)
qed

text \<open>The device of \<open>demo_state\<close> connects on worker 2 while the report of its first connection is out.\<close>

definition demo_again :: clients_state where
  "demo_again =
     \<lparr> deviceStates = [(''abcd'', \<lparr> targetConnected = True, targetWorkerId = Some 2,
                          currentConnected = None, currentWorkerId = None \<rparr>)],
       pendingUpdates = [''abcd''], currentlyReporting = True, loops = [AwaitReports 7 [demo_post]] \<rparr>"

definition demo_marked :: clients_state where
  "demo_marked =
     \<lparr> deviceStates = [(''abcd'', \<lparr> targetConnected = True, targetWorkerId = Some 2,
                          currentConnected = Some True, currentWorkerId = Some (Some 2) \<rparr>)],
       pendingUpdates = [''abcd''], currentlyReporting = True, loops = [AwaitTimer 7] \<rparr>"

theorem reconnect_during_report_not_resent_witness:
  "clients_trans demo_config demo_state (Call ''abcd'' 7 (Some 2) True, []) demo_again \<and>
   clients_trans demo_config demo_again (Settled demo_post (Status 200), []) demo_marked \<and>
   (\<exists>t. map_of (deviceStates (demo_marked\<lparr>pendingUpdates := []\<rparr>)) ''abcd'' = Some t \<and>
      targetWorkerId t = Some 2 \<and> reported t)"
proof -
  have call: "clients_trans demo_config demo_state (Call ''abcd'' 7 (Some 2) (post_connected demo_post), []) demo_again"
    by (rule clients_trans.call)
       (simp add: setConnected_def updateLoop_def set_add_def demo_state_def demo_again_def demo_post_def)
  have answer: "clients_trans demo_config demo_again (Settled demo_post (Status 200), []) demo_marked"
    by (rule clients_trans.settled [of _ "[]" 7 "[]" demo_post "[]" "[]"])
       (simp_all add: settle_post_def await_rest_def demo_again_def demo_marked_def demo_post_def)
  have "clients_trans demo_config demo_marked (TimerFired, []) (demo_marked\<lparr>pendingUpdates := []\<rparr>)"
    by (rule clients_trans.timer [of _ "[]" 7 "[]"])
       (simp_all add: updateLoop_def reportUpdates_def Let_def tracker_of_def needs_update_def
         worker_differs_def demo_marked_def)
  then have rest: "clients_run demo_config (not_about ''abcd'') demo_marked ([] @ []) (demo_marked\<lparr>pendingUpdates := []\<rparr>)"
    by (intro run_more [OF run_none]) (simp_all add: not_about_def)
  have "demo_post \<in> set (outstanding demo_state)" "''abcd'' \<in> set (post_uuids demo_post)"
    by (simp_all add: demo_state_def demo_post_def outstanding_def)
  from reconnect_during_report_not_resent [OF demo_reach this call run_none answer rest] call answer
  show ?thesis by (auto simp: demo_post_def)
qed

end
