(* ===== verification/Metrics_Names.thy ===== *)
theory Metrics_Names
  imports Complex_Main Vpn_Prelude
begin

text \<open>
  \<^verbatim>\<open>src/utils/metrics.ts\<close>: the metric names and the two functions that describe them.  The
  metrics package is not part of the repository; the model records the calls made to it, in
  order, and says nothing about what the package does with them.
\<close>

datatype metrics_name =
    SessionDuration
  | SessionRxBitrate
  | SessionTxBitrate
  | RxBytes
  | TxBytes
  | OnlineDevices
  | TotalDevices
  | AuthFailures
  | ActiveTunnels
  | TotalTunnels
  | TunnelErrors

fun metric_string :: "metrics_name \<Rightarrow> string" where
  "metric_string SessionDuration = ''vpn_session_duration''"
| "metric_string SessionRxBitrate = ''vpn_session_avg_rx_bitrate''"
| "metric_string SessionTxBitrate = ''vpn_session_avg_tx_bitrate''"
| "metric_string RxBytes = ''vpn_rx_bytes_total''"
| "metric_string TxBytes = ''vpn_tx_bytes_total''"
| "metric_string OnlineDevices = ''vpn_online_devices''"
| "metric_string TotalDevices = ''vpn_devices_total''"
| "metric_string AuthFailures = ''vpn_auth_failures_total''"
| "metric_string ActiveTunnels = ''vpn_proxy_active_tunnels''"
| "metric_string TotalTunnels = ''vpn_proxy_total_tunnels''"
| "metric_string TunnelErrors = ''vpn_proxy_tunnel_errors''"

text \<open>Calls of the metrics package.  An amount is exact; \<open>None\<close> is \<open>NaN\<close>.\<close>

datatype metric_call =
    MInc metrics_name "rat option"
  | MDec metrics_name
  | MHistogram metrics_name "rat option"
  | MReset metrics_name
  | MGauge metrics_name rat
  | MCounter metrics_name rat
  | DescribeGauge metrics_name string
  | DescribeCounter metrics_name string
  | DescribeHistogram metrics_name string "rat list"

definition describeWorkerMetrics :: "metric_call list" where
  "describeWorkerMetrics =
     [DescribeGauge OnlineDevices ''vpn current online devices'',
      MGauge OnlineDevices 0,
      DescribeCounter TotalDevices ''vpn total devices since restart'',
      MCounter TotalDevices 0,
      DescribeCounter AuthFailures ''vpn device auth failures since restart'',
      MCounter AuthFailures 0,
      DescribeCounter RxBytes ''total rx bytes across all vpn sessions'',
      MCounter RxBytes 0,
      DescribeCounter TxBytes ''total tx bytes across all vpn sessions'',
      MCounter TxBytes 0,
      DescribeGauge ActiveTunnels ''current tunnels to vpn devices'',
      MGauge ActiveTunnels 0,
      DescribeCounter TotalTunnels ''running total of tunnels to vpn devices'',
      MCounter TotalTunnels 0,
      DescribeCounter TunnelErrors ''number of tunnels failed due to transmission error'',
      MCounter TunnelErrors 0]"

definition kb :: rat where "kb = 2 ^ 10"

definition mb :: rat where "mb = 2 ^ 10 * kb"

definition bitrateBuckets :: "rat list" where
  "bitrateBuckets =
     [kb, 5 / 2 * kb, 5 * kb, 15 / 2 * kb, 10 * kb, 15 * kb, 20 * kb, 25 * kb, 50 * kb, 100 * kb,
      250 * kb, 500 * kb, mb, 2 * mb, 3 * mb, 4 * mb, 5 * mb, 6 * mb, 7 * mb, 8 * mb, 9 * mb,
      10 * mb, 15 * mb, 20 * mb, 25 * mb, 30 * mb, 35 * mb, 40 * mb, 45 * mb, 50 * mb, 100 * mb]"

definition durationBuckets :: "rat list" where
  "durationBuckets =
     (let min = 60; hour = 60 * min; day = 24 * hour; week = 7 * day
      in [1 * min, 5 * min, 15 * min, 1 * hour, 6 * hour, 12 * hour, 1 * day, 1 * week])"

definition describePrimaryMetrics :: "metric_call list" where
  "describePrimaryMetrics =
     [DescribeHistogram SessionRxBitrate ''histogram of average rx rate per vpn client'' bitrateBuckets,
      DescribeHistogram SessionTxBitrate ''histogram of average tx rate per vpn client'' bitrateBuckets,
      DescribeHistogram SessionDuration ''histogram showing duration of vpn sessions'' durationBuckets]"

text \<open>What a list of calls adds to a counter or gauge.\<close>

fun call_amount :: "metrics_name \<Rightarrow> metric_call \<Rightarrow> rat" where
  "call_amount n (MInc m (Some q)) = (if m = n then q else 0)"
| "call_amount n (MDec m) = (if m = n then -1 else 0)"
| "call_amount n _ = 0"

definition metric_total :: "metrics_name \<Rightarrow> metric_call list \<Rightarrow> rat" where
  "metric_total n calls = sum_list (map (call_amount n) calls)"

lemma metric_total_append [simp]: "metric_total n (a @ b) = metric_total n a + metric_total n b"
  by (simp add: metric_total_def)

end
