(* ===== verification/Device.thy ===== *)
theory Device
  imports Vpn_Prelude
begin

text \<open>
  \<^verbatim>\<open>src/utils/device.ts\<close>: what the proxy asks the balena API about a device -- whether the
  caller may open a tunnel to it, whether it is connected, and which VPN instance it is on --
  together with \<open>getPassthrough\<close>, \<open>getLogger\<close> and \<open>captureException\<close> of
  \<^verbatim>\<open>src/utils/index.ts\<close> and \<^verbatim>\<open>src/utils/errors.ts\<close>.

  The API itself is a service: the parameter \<open>api\<close> maps a request to its answer.  Buffers
  with credentials are the strings of their bytes.
\<close>

subsection \<open>Shared helpers\<close>

definition getPassthrough :: "(string \<times> string) list \<Rightarrow> string option \<Rightarrow> (string \<times> string) list" where
  "getPassthrough trace auth =
     (case auth of None \<Rightarrow> trace | Some a \<Rightarrow> AList.update ''Authorization'' a trace)"

definition logger_label :: "string \<Rightarrow> int option \<Rightarrow> int option \<Rightarrow> string" where
  "logger_label svc serviceId workerId =
     (case serviceId of
        None \<Rightarrow> svc
      | Some i \<Rightarrow>
          svc @ ''-'' @ show_int i @
          (case workerId of None \<Rightarrow> '''' | Some w \<Rightarrow> ''.'' @ show_int w))"

text \<open>\<open>err.message\<close>.\<close>

fun error_message :: "js_error \<Rightarrow> string" where
  "error_message (APIError m) = m"
| "error_message BadRequestError = ''''"
| "error_message (HandledTunnelingError m) = m"
| "error_message (RemoteTunnellingError m) = m"
| "error_message (ServiceRegistrationError m) = m"
| "error_message (InvalidHostnameError m) = m"
| "error_message (TimeoutError m) = m"
| "error_message JsTypeError = ''''"
| "error_message (JsError m) = m"

text \<open>What \<open>captureException\<close> hands to Sentry: nothing unless a DSN is configured.\<close>

record capture =
  cap_message :: string
  cap_fingerprint :: string
  cap_tags :: "(string \<times> string) list"

definition captureException ::
  "string option \<Rightarrow> string \<Rightarrow> string \<Rightarrow> (string \<times> string) list \<Rightarrow> capture list" where
  "captureException dsn err fingerprint tags =
     (if dsn \<noteq> None \<and> dsn \<noteq> Some ''''
      then [\<lparr> cap_message = err, cap_fingerprint = fingerprint, cap_tags = tags \<rparr>] else [])"

subsection \<open>The API, as a parameter\<close>

datatype api_failure = StatusError int string | OtherFailure string

fun failure_message :: "api_failure \<Rightarrow> string" where
  "failure_message (StatusError c m) = m"
| "failure_message (OtherFailure m) = m"

record vpn_host =
  host_id :: int
  host_ip_address :: string

text \<open>The three requests.  Each takes the \<open>Authorization\<close> header.  The answer to the access
  check is the member \<open>d\<close> of the body, \<open>None\<close> when it is not an array.\<close>

record balena_api =
  api_canAccess :: "string \<Rightarrow> string list \<Rightarrow> string option \<Rightarrow> api_failure + int list option"
  api_connectedDevice :: "int \<Rightarrow> string option \<Rightarrow> api_failure + int option"
  api_serviceInstances :: "string \<Rightarrow> string option \<Rightarrow> api_failure + vpn_host list"

subsection \<open>Operations\<close>

definition authHeader :: "string option \<Rightarrow> string option \<Rightarrow> string option" where
  "authHeader guestKey auth =
     (case auth of
        Some a \<Rightarrow> Some (''Bearer '' @ a)
      | None \<Rightarrow> (case guestKey of Some k \<Rightarrow> Some (''Bearer '' @ k) | None \<Rightarrow> None))"

definition isDeviceConnectedToVpn ::
  "balena_api \<Rightarrow> string option \<Rightarrow> string option \<Rightarrow> int \<Rightarrow> string option \<Rightarrow> bool result \<times> capture list" where
  "isDeviceConnectedToVpn api guestKey dsn did auth =
     (case api_connectedDevice api did (authHeader guestKey auth) of
        Inr None \<Rightarrow> (Inr False, [])
      | Inr (Some _) \<Rightarrow> (Inr True, [])
      | Inl err \<Rightarrow>
          (Inl (APIError (failure_message err)),
           captureException dsn (failure_message err) ''device-lookup-error'' []))"

text \<open>\<open>$canAccessDevice\<close>: \<open>None\<close> is the value \<open>false\<close>.\<close>

definition canAccessDevice ::
  "balena_api \<Rightarrow> string option \<Rightarrow> string \<Rightarrow> int \<Rightarrow> string option \<Rightarrow> int option" where
  "canAccessDevice api guestKey uuid port auth =
     (case api_canAccess api
             (''device(uuid=@uuid)/canAccess?@uuid='' @ [CHR 0x27] @ uuid @ [CHR 0x27])
             [''tunnel-any'', ''tunnel-'' @ show_int port] (authHeader guestKey auth) of
        Inr (Some [i]) \<Rightarrow> Some i
      | Inr _ \<Rightarrow> None
      | Inl _ \<Rightarrow> None)"

text \<open>The key under which \<open>memoize\<close> keeps an answer of the access check for five seconds.  The
  credentials are a buffer, printed as the text it holds.\<close>

definition memo_key :: "string \<Rightarrow> int \<Rightarrow> string option \<Rightarrow> string" where
  "memo_key uuid port auth =
     uuid @ ''-'' @ show_int port @ ''-'' @ (case auth of Some a \<Rightarrow> a | None \<Rightarrow> ''guest'')"

text \<open>\<open>getDeviceVpnHost\<close> returns a host, \<open>undefined\<close> or \<open>false\<close>.\<close>

datatype vpn_host_answer = VpnHost vpn_host | NoVpnHost | VpnHostUnknown

definition getDeviceVpnHost ::
  "balena_api \<Rightarrow> string option \<Rightarrow> string option \<Rightarrow> string \<Rightarrow> string option \<Rightarrow>
   vpn_host_answer result \<times> capture list" where
  "getDeviceVpnHost api guestKey dsn uuid auth =
     (case api_serviceInstances api uuid (authHeader guestKey auth) of
        Inr [] \<Rightarrow> (Inr NoVpnHost, [])
      | Inr (h # _) \<Rightarrow> (Inr (VpnHost h), [])
      | Inl (StatusError c m) \<Rightarrow>
          if c = 401 then (Inr VpnHostUnknown, [])
          else (Inl (APIError (''cannot find device vpn host ('' @ m @ '')'')), [])
      | Inl (OtherFailure m) \<Rightarrow>
          (Inl (APIError (''cannot find device vpn host ('' @ m @ '')'')),
           captureException dsn m ''device-vpn-host-lookup-error'' []))"

subsection \<open>Properties\<close>

lemma dash_not_in_show_nat [simp]: "CHR ''-'' \<notin> set (show_nat n)"
  using show_nat_digits [of n] by (auto simp: is_digit_def)

lemma show_int_nonneg: "0 \<le> i \<Longrightarrow> show_int i = show_nat (nat i)"
  by (simp add: show_int_def)

text \<open>C32. Two access checks share a memoized answer only if they are the same check: for device
  uuids without a dash and non-negative ports, equal keys mean the same device, the same port and
  the same credentials -- except that a request without credentials and one whose password is
  the word \<open>guest\<close> have the same key.\<close>

theorem memo_key_separates:
  assumes "CHR ''-'' \<notin> set uuid" "CHR ''-'' \<notin> set uuid'" "0 \<le> port" "0 \<le> port'"
  shows "memo_key uuid port auth = memo_key uuid' port' auth' \<longleftrightarrow>
    uuid = uuid' \<and> port = port' \<and>
    (auth = auth' \<or> {auth, auth'} = {None, Some ''guest''})"
proof -
  have "memo_key uuid port auth = memo_key uuid' port' auth' \<longleftrightarrow>
      uuid = uuid' \<and> show_nat (nat port) = show_nat (nat port') \<and>
      (case auth of Some a \<Rightarrow> a | None \<Rightarrow> ''guest'') = (case auth' of Some a \<Rightarrow> a | None \<Rightarrow> ''guest'')"
    using assms by (simp add: memo_key_def show_int_nonneg sep_split)
  also have "\<dots> \<longleftrightarrow> uuid = uuid' \<and> port = port' \<and>
      (auth = auth' \<or> {auth, auth'} = {None, Some ''guest''})"
    using assms(3,4) by (auto split: option.splits simp: doubleton_eq_iff)
  finally show ?thesis .
qed

theorem memo_key_separates_witness:
  "memo_key ''ab'' 80 (Some ''secret'') \<noteq> memo_key ''ab'' 80 None \<and>
   memo_key ''ab'' 80 (Some ''guest'') = memo_key ''ab'' 80 None"
  using memo_key_separates [of "''ab''" "''ab''" 80 80 "Some ''secret''" None]
    memo_key_separates [of "''ab''" "''ab''" 80 80 "Some ''guest''" None]
  by (simp add: doubleton_eq_iff insert_commute)

end
