(* ===== verification/Api.thy ===== *)
theory Api
  imports Metrics_Names Clients Device
begin

text \<open>
  \<^verbatim>\<open>src/api.ts\<close>: the internal HTTP API that OpenVPN's scripts call.  \<open>post_clients\<close> and
  \<open>delete_clients\<close> are the connect and disconnect endpoints with their reference counts,
  \<open>post_auth\<close> the authentication endpoint.  Express, body parsing, compression and logging
  are outside the model: a request is its address, its route parameter and the fields of its
  body that the handlers read (\<open>None\<close> when the body or the field is missing).

  The endpoints report through \<open>setConnected\<close> of \<^verbatim>\<open>src/utils/clients.ts\<close>, which they take
  as an argument; the locale \<open>device_tracker\<close> is the contract they rely on and the module
  \<open>Clients\<close> is shown to meet it.
\<close>

subsection \<open>Requests, replies and state\<close>

datatype json = JNull | JBool bool | JNum rat | JStr string

record api_body =
  common_name :: "string option"
  time_duration :: "json option"
  username :: "string option"
  password :: "string option"

record api_request =
  req_ip :: "string option"
  worker_param :: string
  req_body :: api_body

datatype api_out =
    Reply int string
  | Metric metric_call
  | Post device_post
  | Captured capture
  | Delay int

record 's api_state =
  clientRefCount :: "(string \<times> int) list"
  tracker_state :: 's

type_synonym 's reporter =
  "string \<Rightarrow> int \<Rightarrow> int option \<Rightarrow> bool \<Rightarrow> 's \<Rightarrow> ('s \<times> device_post list) option"

subsection \<open>Middleware and type guards\<close>

text \<open>\<open>fromLocalHost\<close>: whether the handler behind it runs.\<close>

definition fromLocalHost :: "api_request \<Rightarrow> bool" where
  "fromLocalHost req \<longleftrightarrow>
     (case req_ip req of
        None \<Rightarrow> False
      | Some ip \<Rightarrow> ip \<in> {''127.0.0.1'', ''::ffff:127.0.0.1'', ''::1''})"

definition hasCommonName :: "api_body \<Rightarrow> bool" where
  "hasCommonName b \<longleftrightarrow> common_name b \<noteq> None"

definition hasDurationData :: "api_body \<Rightarrow> bool" where
  "hasDurationData b \<longleftrightarrow> (case time_duration b of Some (JNum d) \<Rightarrow> True | _ \<Rightarrow> False)"

definition session_duration :: "api_body \<Rightarrow> metric_call list" where
  "session_duration b =
     (case time_duration b of
        Some (JNum d) \<Rightarrow> [MHistogram SessionDuration (Some d)]
      | _ \<Rightarrow> [])"

definition ref_count :: "'s api_state \<Rightarrow> string \<Rightarrow> int" where
  "ref_count st uuid = (case map_of (clientRefCount st) uuid of None \<Rightarrow> 0 | Some n \<Rightarrow> n)"

definition set_ref_count :: "string \<Rightarrow> int \<Rightarrow> 's api_state \<Rightarrow> 's api_state" where
  "set_ref_count uuid n st = st\<lparr>clientRefCount := AList.update uuid n (clientRefCount st)\<rparr>"

subsection \<open>The client endpoints\<close>

text \<open>The call of \<open>setConnected\<close> at the end of a handler: its requests follow the outputs so
  far.  \<open>None\<close> when the call never returns.\<close>

definition report_to ::
  "'s reporter \<Rightarrow> string \<Rightarrow> int \<Rightarrow> int option \<Rightarrow> bool \<Rightarrow> 's api_state \<Rightarrow> api_out list \<Rightarrow>
   ('s api_state \<times> api_out list) option" where
  "report_to setConn uuid serviceId workerId conn st outs =
     map_option (\<lambda>(s, ps). (st\<lparr>tracker_state := s\<rparr>, outs @ map Post ps))
       (setConn uuid serviceId workerId conn (tracker_state st))"

definition post_clients ::
  "'s reporter \<Rightarrow> int \<Rightarrow> 's api_state \<Rightarrow> api_request \<Rightarrow> ('s api_state \<times> api_out list) option" where
  "post_clients setConn serviceId st req =
     (if \<not> fromLocalHost req then Some (st, [Reply 401 ''''])
      else if \<not> hasCommonName (req_body req) then Some (st, [Reply 400 ''''])
      else
        let workerId = parseInt (worker_param req);
            uuid = the (common_name (req_body req));
            startingRefCount = ref_count st uuid;
            st1 = set_ref_count uuid (startingRefCount + 1) st;
            outs = [Reply 200 ''''] @
              (if startingRefCount = 0 then [Metric (MInc OnlineDevices (Some 1))] else []) @
              [Metric (MInc TotalDevices (Some 1))]
        in if startingRefCount \<ge> 0
           then report_to setConn uuid serviceId workerId True st1 outs
           else Some (st1, outs))"

definition delete_clients ::
  "'s reporter \<Rightarrow> int \<Rightarrow> 's api_state \<Rightarrow> api_request \<Rightarrow> ('s api_state \<times> api_out list) option" where
  "delete_clients setConn serviceId st req =
     (if \<not> fromLocalHost req then Some (st, [Reply 401 ''''])
      else if \<not> hasCommonName (req_body req) then Some (st, [Reply 400 ''''])
      else
        let outs0 = map Metric (session_duration (req_body req));
            workerId = parseInt (worker_param req);
            uuid = the (common_name (req_body req));
            startingRefCount = ref_count st uuid;
            st1 = set_ref_count uuid (startingRefCount - 1) st
        in if startingRefCount \<noteq> 1 then Some (st1, outs0 @ [Reply 400 ''''])
           else report_to setConn uuid serviceId workerId False st1
                  (outs0 @ [Reply 200 '''', Metric (MDec OnlineDevices)]))"

subsection \<open>The authentication endpoint\<close>

record auth_config =
  auth_api_host :: string
  auth_trace :: "(string \<times> string) list"
  auth_sentry_dsn :: "string option"
  DELAY_ON_AUTH_FAIL :: int

text \<open>The request to the API, and the errors of the check: a failed request has the message of the
  request package.\<close>

record auth_get =
  get_url :: string
  get_headers :: "(string \<times> string) list"

datatype auth_error = ExpectedAuthError int | UnexpectedStatus int | AuthRequestFailed string

definition auth_request :: "auth_config \<Rightarrow> string \<Rightarrow> string \<Rightarrow> auth_get" where
  "auth_request cfg user pass =
     \<lparr> get_url = auth_api_host cfg @ ''/services/vpn/auth/'' @ user,
       get_headers = getPassthrough (auth_trace cfg) (Some (''Bearer '' @ pass)) \<rparr>"

definition auth_status :: "string + int \<Rightarrow> auth_error + int" where
  "auth_status answer =
     (case answer of
        Inl msg \<Rightarrow> Inl (AuthRequestFailed msg)
      | Inr statusCode \<Rightarrow>
          if statusCode \<in> {200, 401, 403} then Inr statusCode
          else if statusCode = 503 then Inl (ExpectedAuthError statusCode)
          else Inl (UnexpectedStatus statusCode))"

text \<open>\<open>$checkDeviceAuth\<close> against the API \<open>get\<close>: what the memoized promise resolves to or is rejected
  with.\<close>

definition checkDeviceAuth_fetch ::
  "auth_config \<Rightarrow> (auth_get \<Rightarrow> string + int) \<Rightarrow> string \<Rightarrow> string \<Rightarrow> auth_error + int" where
  "checkDeviceAuth_fetch cfg get user pass = auth_status (get (auth_request cfg user pass))"

text \<open>The function around it, on what the memoized call gives: an expected error counts as its
  status code.\<close>

definition checkDeviceAuth :: "auth_error + int \<Rightarrow> auth_error + int" where
  "checkDeviceAuth memoized =
     (case memoized of Inl (ExpectedAuthError c) \<Rightarrow> Inr c | r \<Rightarrow> r)"

fun auth_message :: "auth_error \<Rightarrow> string" where
  "auth_message (ExpectedAuthError c) = ''''"
| "auth_message (UnexpectedStatus c) = ''Unexpected status code from the API: '' @ show_int c"
| "auth_message (AuthRequestFailed msg) = msg"

text \<open>\<open>memo\<close> is the memoized call: for a user name and a password, a cached status or the
  outcome of a fresh request.\<close>

definition post_auth ::
  "auth_config \<Rightarrow> (string \<Rightarrow> string \<Rightarrow> auth_error + int) \<Rightarrow> api_request \<Rightarrow> api_out list" where
  "post_auth cfg memo req =
     (if \<not> fromLocalHost req then [Reply 401 '''']
      else case (username (req_body req), password (req_body req)) of
             (None, _) \<Rightarrow> [Reply 400 '''']
           | (Some u, None) \<Rightarrow> [Reply 400 '''']
           | (Some u, Some p) \<Rightarrow>
               (case checkDeviceAuth (memo u p) of
                  Inr statusCode \<Rightarrow>
                    if statusCode = 200 then [Reply 200 ''OK'']
                    else [Metric (MInc AuthFailures (Some 1)), Delay (DELAY_ON_AUTH_FAIL cfg), Reply 401 '''']
                | Inl e \<Rightarrow>
                    map Captured (captureException (auth_sentry_dsn cfg) (auth_message e) ''api-auth-error'' []) @
                    [Reply 401 '''']))"

subsection \<open>Sequences of requests\<close>

datatype api_call = PostClients api_request | DeleteClients api_request

fun api_handle :: "'s reporter \<Rightarrow> int \<Rightarrow> 's api_state \<Rightarrow> api_call \<Rightarrow> ('s api_state \<times> api_out list) option" where
  "api_handle setConn sid st (PostClients req) = post_clients setConn sid st req"
| "api_handle setConn sid st (DeleteClients req) = delete_clients setConn sid st req"

fun api_run ::
  "'s reporter \<Rightarrow> int \<Rightarrow> 's api_state \<Rightarrow> api_call list \<Rightarrow> ('s api_state \<times> api_out list) option" where
  "api_run setConn sid st [] = Some (st, [])"
| "api_run setConn sid st (c # cs) =
     (case api_handle setConn sid st c of
        None \<Rightarrow> None
      | Some (st', o1) \<Rightarrow>
          map_option (\<lambda>(st'', o2). (st'', o1 @ o2)) (api_run setConn sid st' cs))"

definition api_init :: "'s \<Rightarrow> 's api_state" where
  "api_init s = \<lparr> clientRefCount = [], tracker_state = s \<rparr>"

text \<open>The specification: the device an accepted call is about, the change it makes to the
  device's count, the balance of connects and disconnects of a device in a sequence of calls.\<close>

fun call_request :: "api_call \<Rightarrow> api_request" where
  "call_request (PostClients req) = req"
| "call_request (DeleteClients req) = req"

definition accepted :: "string \<Rightarrow> api_call \<Rightarrow> bool" where
  "accepted u c \<longleftrightarrow> fromLocalHost (call_request c) \<and> common_name (req_body (call_request c)) = Some u"

fun call_delta :: "api_call \<Rightarrow> int" where
  "call_delta (PostClients req) = 1"
| "call_delta (DeleteClients req) = - 1"

definition balance :: "api_call list \<Rightarrow> string \<Rightarrow> int" where
  "balance cs u = sum_list (map call_delta (filter (accepted u) cs))"

fun online_change :: "api_out \<Rightarrow> int" where
  "online_change (Metric (MInc OnlineDevices v)) = 1"
| "online_change (Metric (MDec OnlineDevices)) = - 1"
| "online_change _ = 0"

definition online_delta :: "api_out list \<Rightarrow> int" where
  "online_delta outs = sum_list (map online_change outs)"

lemma online_delta_simps [simp]:
  "online_delta [] = 0"
  "online_delta (x # xs) = online_change x + online_delta xs"
  "online_delta (xs @ ys) = online_delta xs + online_delta ys"
  "online_delta (map Post ps) = 0"
  "online_delta (map Metric (session_duration b)) = 0"
  by (auto simp: online_delta_def session_duration_def comp_def split: option.splits json.splits)

lemma ref_count_simps [simp]:
  "ref_count (set_ref_count u n st) v = (if v = u then n else ref_count st v)"
  "ref_count (st\<lparr>tracker_state := s\<rparr>) = ref_count st"
  "tracker_state (set_ref_count u n st) = tracker_state st"
  "ref_count (api_init s) u = 0"
  by (auto simp: ref_count_def set_ref_count_def api_init_def fun_eq_iff)

lemma finite_online: "finite {u. 1 \<le> ref_count st u}"
proof (rule finite_subset)
  show "{u. 1 \<le> ref_count st u} \<subseteq> fst ` set (clientRefCount st)"
    by (auto simp: ref_count_def split: option.splits dest: map_of_SomeD intro: rev_image_eqI)
qed simp

lemma card_online_set:
  "int (card {v. 1 \<le> ref_count (set_ref_count u n st) v}) =
     int (card {v. 1 \<le> ref_count st v}) + of_bool (1 \<le> n) - of_bool (1 \<le> ref_count st u)"
proof -
  let ?A = "{v. v \<noteq> u \<and> 1 \<le> ref_count st v}"
  have fin: "finite ?A" by (rule finite_subset [OF _ finite_online [of st]]) auto
  have "{v. 1 \<le> ref_count (set_ref_count u n st) v} = (if 1 \<le> n then insert u ?A else ?A)" by auto
  then have new: "int (card {v. 1 \<le> ref_count (set_ref_count u n st) v}) = int (card ?A) + of_bool (1 \<le> n)"
    using fin by (simp add: card_insert_if)
  have "{v. 1 \<le> ref_count st v} = (if 1 \<le> ref_count st u then insert u ?A else ?A)" by auto
  then have "int (card {v. 1 \<le> ref_count st v}) = int (card ?A) + of_bool (1 \<le> ref_count st u)"
    using fin by (simp add: card_insert_if)
  with new show ?thesis by simp
qed

text \<open>The handlers on an accepted request for device \<open>u\<close>; any other request changes nothing.\<close>

lemma api_handle_rejected:
  assumes "\<And>u. \<not> accepted u c" "api_handle setConn sid st c = Some (st', outs)"
  shows "st' = st" "online_delta outs = 0"
  using assms
  by (cases c; force simp: accepted_def post_clients_def delete_clients_def hasCommonName_def
      split: if_splits)+

lemma post_clients_accepted:
  assumes "accepted u (PostClients req)"
  shows "post_clients setConn sid st req =
    (let st1 = set_ref_count u (ref_count st u + 1) st;
         outs = [Reply 200 ''''] @
           (if ref_count st u = 0 then [Metric (MInc OnlineDevices (Some 1))] else []) @
           [Metric (MInc TotalDevices (Some 1))]
     in if ref_count st u \<ge> 0
        then report_to setConn u sid (parseInt (worker_param req)) True st1 outs
        else Some (st1, outs))"
  using assms by (simp add: accepted_def post_clients_def hasCommonName_def Let_def)

lemma delete_clients_accepted:
  assumes "accepted u (DeleteClients req)"
  shows "delete_clients setConn sid st req =
    (let st1 = set_ref_count u (ref_count st u - 1) st;
         outs0 = map Metric (session_duration (req_body req))
     in if ref_count st u \<noteq> 1 then Some (st1, outs0 @ [Reply 400 ''''])
        else report_to setConn u sid (parseInt (worker_param req)) False st1
               (outs0 @ [Reply 200 '''', Metric (MDec OnlineDevices)]))"
  using assms by (simp add: accepted_def delete_clients_def hasCommonName_def Let_def)

lemma accepted_unique: "accepted u c \<Longrightarrow> accepted v c \<longleftrightarrow> v = u"
  by (auto simp: accepted_def)

subsection \<open>The contract with the reporting module\<close>

locale device_tracker =
  fixes report :: "'s reporter"
    and target :: "'s \<Rightarrow> string \<Rightarrow> bool option"
    and usable :: bool
  assumes report_target: "report u sid w c s = Some (s', ps) \<Longrightarrow> target s' = (target s)(u \<mapsto> c)"
    and report_total: "usable \<Longrightarrow> \<exists>s' ps. report u sid w c s = Some (s', ps)"
begin

lemma report_to_Some:
  assumes "report_to report u sid w c st outs0 = Some (st', outs)"
  shows "ref_count st' = ref_count st" and "online_delta outs = online_delta outs0"
    and "target (tracker_state st') = (target (tracker_state st))(u \<mapsto> c)"
  using assms report_target by (auto simp: report_to_def)

text \<open>One accepted call: the count moves by the call's delta, the gauge by the change of the
  device's online status, and the device's target follows its count.\<close>

lemma accepted_call_effect:
  assumes call: "api_handle report sid st c = Some (st', outs)" and acc: "accepted u c"
    and tgt: "target (tracker_state st) u = Some True \<longleftrightarrow> 1 \<le> ref_count st u"
  shows "ref_count st' = ref_count (set_ref_count u (ref_count st u + call_delta c) st) \<and>
    online_delta outs = of_bool (1 \<le> ref_count st' u) - of_bool (1 \<le> ref_count st u) \<and>
    (target (tracker_state st') u = Some True \<longleftrightarrow> 1 \<le> ref_count st' u) \<and>
    (\<forall>v. v \<noteq> u \<longrightarrow> target (tracker_state st') v = target (tracker_state st) v)"
proof (cases c)
  case (PostClients req)
  note eq = post_clients_accepted [OF acc [unfolded PostClients], of report sid st, unfolded Let_def]
  show ?thesis
  proof (cases "0 \<le> ref_count st u")
    case True
    then have "report_to report u sid (parseInt (worker_param req)) True
        (set_ref_count u (ref_count st u + 1) st)
        ([Reply 200 ''''] @ (if ref_count st u = 0 then [Metric (MInc OnlineDevices (Some 1))] else []) @
         [Metric (MInc TotalDevices (Some 1))]) = Some (st', outs)"
      using call PostClients eq by simp
    note report_to_Some [OF this]
    with True show ?thesis by (simp add: PostClients)
  next
    case False
    then show ?thesis using call PostClients eq tgt by auto
  qed
next
  case (DeleteClients req)
  note eq = delete_clients_accepted [OF acc [unfolded DeleteClients], of report sid st, unfolded Let_def]
  show ?thesis
  proof (cases "ref_count st u = 1")
    case True
    then have "report_to report u sid (parseInt (worker_param req)) False
        (set_ref_count u (ref_count st u - 1) st)
        (map Metric (session_duration (req_body req)) @ [Reply 200 '''', Metric (MDec OnlineDevices)]) =
        Some (st', outs)"
      using call DeleteClients eq by simp
    note report_to_Some [OF this]
    with True show ?thesis by (simp add: DeleteClients)
  next
    case False
    then show ?thesis using call DeleteClients eq tgt by auto
  qed
qed

lemma api_call_effect:
  assumes call: "api_handle report sid st c = Some (st', outs)"
    and tgt: "\<And>u. target (tracker_state st) u = Some True \<longleftrightarrow> 1 \<le> ref_count st u"
  shows "target (tracker_state st') u = Some True \<longleftrightarrow> 1 \<le> ref_count st' u"
    and "ref_count st' u = ref_count st u + (if accepted u c then call_delta c else 0)"
    and "online_delta outs = int (card {u. 1 \<le> ref_count st' u}) - int (card {u. 1 \<le> ref_count st u})"
proof -
  have "(target (tracker_state st') u = Some True \<longleftrightarrow> 1 \<le> ref_count st' u) \<and>
    ref_count st' u = ref_count st u + (if accepted u c then call_delta c else 0) \<and>
    online_delta outs = int (card {u. 1 \<le> ref_count st' u}) - int (card {u. 1 \<le> ref_count st u})"
  proof (cases "\<exists>v. accepted v c")
    case True
    then obtain v where v: "accepted v c" ..
    show ?thesis
      using accepted_call_effect [OF call v tgt] accepted_unique [OF v, of u] tgt [of u]
        card_online_set [of v "ref_count st v + call_delta c" st]
      by (cases "u = v") auto
  next
    case False
    then show ?thesis using api_handle_rejected [OF _ call] tgt [of u] by auto
  qed
  then show "target (tracker_state st') u = Some True \<longleftrightarrow> 1 \<le> ref_count st' u"
    and "ref_count st' u = ref_count st u + (if accepted u c then call_delta c else 0)"
    and "online_delta outs = int (card {u. 1 \<le> ref_count st' u}) - int (card {u. 1 \<le> ref_count st u})"
    by blast+
qed

text \<open>A whole sequence of calls, from a state where targets follow counts.\<close>

lemma api_run_effect:
  assumes "api_run report sid st cs = Some (st', outs)"
    and "\<And>u. target (tracker_state st) u = Some True \<longleftrightarrow> 1 \<le> ref_count st u"
  shows "(\<forall>u. ref_count st' u = ref_count st u + balance cs u) \<and>
    online_delta outs = int (card {u. 1 \<le> ref_count st' u}) - int (card {u. 1 \<le> ref_count st u}) \<and>
    (\<forall>u. target (tracker_state st') u = Some True \<longleftrightarrow> 1 \<le> ref_count st' u)"
  using assms
proof (induction cs arbitrary: st outs)
  case Nil
  then show ?case by (simp add: balance_def)
next
  case (Cons c cs)
  then obtain st1 o1 o2 where c: "api_handle report sid st c = Some (st1, o1)"
    and cs: "api_run report sid st1 cs = Some (st', o2)" and outs: "outs = o1 @ o2"
    by (auto split: option.splits)
  note eff = api_call_effect [OF c Cons.prems(2)]
  have "ref_count st' u = ref_count st u + balance (c # cs) u" for u
    using Cons.IH [OF cs eff(1)] eff(2) [of u] by (simp add: balance_def)
  then show ?case using Cons.IH [OF cs eff(1)] eff(3) outs by simp
qed

lemma api_handle_total:
  assumes usable
  shows "\<exists>r. api_handle report sid st c = Some r"
proof -
  have "\<exists>r. report_to report u sid w conn s outs = Some r" for u w conn s outs
    using report_total [OF assms, of u sid w conn "tracker_state s"] by (auto simp: report_to_def)
  then show ?thesis
    by (cases c) (auto simp: post_clients_def delete_clients_def Let_def)
qed

lemma api_run_total: "usable \<Longrightarrow> \<exists>r. api_run report sid st cs = Some r"
proof (induction cs arbitrary: st)
  case (Cons c cs)
  obtain st1 o1 where "api_handle report sid st c = Some (st1, o1)"
    using api_handle_total [OF Cons.prems, of sid st c] by auto
  moreover obtain r where "api_run report sid st1 cs = Some r" using Cons by blast
  ultimately show ?case by (auto split: prod.splits)
qed simp

end

subsection \<open>The reporting module meets the contract\<close>

definition client_target :: "clients_state \<Rightarrow> string \<Rightarrow> bool option" where
  "client_target st u = map_option targetConnected (map_of (deviceStates st) u)"

lemma updateLoop_deviceStates:
  "updateLoop cfg sid st = Some (st', ps) \<Longrightarrow> deviceStates st' = deviceStates st"
  by (auto simp: updateLoop_def Let_def split: if_splits option.splits)

interpretation clients_tracker: device_tracker "setConnected cfg" client_target "0 < batch_size cfg"
proof
  fix u sid w c s s' ps
  assume "setConnected cfg u sid w c s = Some (s', ps)"
  then show "client_target s' = (client_target s)(u \<mapsto> c)"
    by (auto simp: setConnected_def Let_def client_target_def fun_eq_iff
        dest!: updateLoop_deviceStates split: option.splits)
next
  fix u sid w c s
  assume "0 < batch_size cfg"
  then show "\<exists>s' ps. setConnected cfg u sid w c s = Some (s', ps)" by (rule setConnected_total)
qed

subsection \<open>Properties\<close>

definition demo_request :: api_request where
  "demo_request = \<lparr> req_ip = Some ''::1'', worker_param = ''1'',
     req_body = \<lparr> common_name = Some ''abcd'', time_duration = Some (JNum 5), username = None, password = None \<rparr> \<rparr>"

text \<open>C13. Reference counting is insensitive to the order of events: after any sequence of
  connect and disconnect requests the count of every device is its connects minus its
  disconnects, the device's target state is connected exactly when the balance is positive, and
  the \<open>vpn_online_devices\<close> gauge has moved by the number of devices with a positive balance.
  Every request returns, given a positive batch size.\<close>

theorem ref_counts_balance:
  assumes "0 < batch_size cfg"
  shows "\<exists>st outs. api_run (setConnected cfg) sid (api_init clients_init) cs = Some (st, outs) \<and>
    (\<forall>u. ref_count st u = balance cs u \<and>
         (client_target (tracker_state st) u = Some True \<longleftrightarrow> 1 \<le> balance cs u)) \<and>
    online_delta outs = int (card {u. 1 \<le> balance cs u})"
proof -
  obtain st outs where run: "api_run (setConnected cfg) sid (api_init clients_init) cs = Some (st, outs)"
    using clients_tracker.api_run_total [OF assms] by fast
  have "client_target (tracker_state (api_init clients_init)) u = Some True \<longleftrightarrow>
      1 \<le> ref_count (api_init clients_init) u" for u
    by (simp add: client_target_def api_init_def clients_init_def ref_count_def)
  note eff = clients_tracker.api_run_effect [OF run this]
  then have "ref_count st = balance cs" by (simp add: fun_eq_iff)
  then show ?thesis using run eff by auto
qed

theorem ref_counts_balance_witness:
  "\<exists>st outs. api_run (setConnected demo_config) 7 (api_init clients_init)
      [DeleteClients demo_request, PostClients demo_request] = Some (st, outs) \<and>
    (\<forall>u. ref_count st u = balance [DeleteClients demo_request, PostClients demo_request] u \<and>
         (client_target (tracker_state st) u = Some True \<longleftrightarrow>
          1 \<le> balance [DeleteClients demo_request, PostClients demo_request] u)) \<and>
    online_delta outs = int (card {u. 1 \<le> balance [DeleteClients demo_request, PostClients demo_request] u})"
  by (rule ref_counts_balance) (simp add: demo_config_def)

definition is_reply :: "api_out \<Rightarrow> bool" where
  "is_reply x = (case x of Reply c b \<Rightarrow> True | _ \<Rightarrow> False)"

lemma no_capture_reply [simp]: "filter is_reply (map Captured cs) = []"
  by (induction cs) (simp_all add: is_reply_def)

lemma status_200:
  "checkDeviceAuth (auth_status a) = Inr 200 \<longleftrightarrow> a = Inr 200"
  "auth_status a = Inr 200 \<longleftrightarrow> a = Inr 200"
  by (auto simp: checkDeviceAuth_def auth_status_def split: sum.splits if_splits)

lemma auth_request_credentials:
  "get_url (auth_request cfg u p) = auth_api_host cfg @ ''/services/vpn/auth/'' @ u"
  "map_of (get_headers (auth_request cfg u p)) ''Authorization'' = Some (''Bearer '' @ p)"
  by (simp_all add: auth_request_def getPassthrough_def update_conv)

text \<open>C22. Authentication fails closed.  The memoizing package returns, for a user name and a
  password, what the function gave for exactly these credentials against the API at some moment
  of the cache window (\<open>gets\<close>).  Then the endpoint sends exactly one reply, 200, 400 or 401; it is
  200 exactly when the request comes from the local host, carries both credentials and the
  memoized status for them is 200, and then the API itself answered 200 to a request for this
  user name that was authorised with this password.\<close>

theorem auth_fails_closed:
  assumes "\<And>u p. \<exists>get \<in> gets. memo u p = checkDeviceAuth_fetch cfg get u p"
  shows "\<exists>code body. filter is_reply (post_auth cfg memo req) = [Reply code body] \<and>
    code \<in> {200, 400, 401} \<and>
    (code = 200 \<longleftrightarrow> fromLocalHost req \<and> (\<exists>u p. username (req_body req) = Some u \<and>
       password (req_body req) = Some p \<and> memo u p = Inr 200 \<and>
       (\<exists>get r. get \<in> gets \<and> get r = Inr 200 \<and>
          get_url r = auth_api_host cfg @ ''/services/vpn/auth/'' @ u \<and>
          map_of (get_headers r) ''Authorization'' = Some (''Bearer '' @ p))))"
proof (cases "fromLocalHost req \<and> username (req_body req) \<noteq> None \<and> password (req_body req) \<noteq> None")
  case False
  then show ?thesis
    by (auto simp: post_auth_def is_reply_def split: option.splits)
next
  case True
  then obtain u p where req: "fromLocalHost req" "username (req_body req) = Some u"
    "password (req_body req) = Some p" by auto
  obtain get where get: "get \<in> gets" "memo u p = auth_status (get (auth_request cfg u p))"
    using assms [of u p] by (auto simp: checkDeviceAuth_fetch_def)
  let ?a = "get (auth_request cfg u p)"
  have reply: "filter is_reply (post_auth cfg memo req) =
      [if ?a = Inr 200 then Reply 200 ''OK'' else Reply 401 '''']"
    using req status_200(1) [of ?a]
    by (auto simp: post_auth_def get(2) is_reply_def split: sum.splits)
  have "memo u p = Inr 200 \<longleftrightarrow> ?a = Inr 200" unfolding get(2) by (rule status_200(2))
  then show ?thesis
    using req reply get(1) auth_request_credentials [of cfg u p] by auto
qed

definition demo_auth_request :: api_request where
  "demo_auth_request = \<lparr> req_ip = Some ''127.0.0.1'', worker_param = '''',
     req_body = \<lparr> common_name = None, time_duration = None, username = Some ''abcd'', password = Some ''key'' \<rparr> \<rparr>"

definition demo_auth_config :: auth_config where
  "demo_auth_config =
     \<lparr> auth_api_host = ''https://api'', auth_trace = [], auth_sentry_dsn = None, DELAY_ON_AUTH_FAIL = 10000 \<rparr>"

theorem auth_fails_closed_witness:
  "\<exists>code body. filter is_reply
      (post_auth demo_auth_config (checkDeviceAuth_fetch demo_auth_config (\<lambda>r. Inr 200)) demo_auth_request) =
      [Reply code body] \<and> code \<in> {200, 400, 401} \<and> code = 200"
proof -
  have "\<exists>get \<in> {\<lambda>r. Inr 200}. checkDeviceAuth_fetch demo_auth_config (\<lambda>r. Inr 200) u p =
      checkDeviceAuth_fetch demo_auth_config get u p" for u p
    by simp
  note closed = auth_fails_closed [OF this, of demo_auth_request]
  have "checkDeviceAuth_fetch demo_auth_config (\<lambda>r. Inr 200) ''abcd'' ''key'' = Inr 200"
    by (simp add: checkDeviceAuth_fetch_def auth_status_def)
  with closed show ?thesis
    using auth_request_credentials [of demo_auth_config "''abcd''" "''key''"]
    by (auto simp: demo_auth_request_def fromLocalHost_def)
qed

text \<open>Only definite answers can be cached: the memoized function resolves exactly on the
  statuses 200, 401 and 403.  A 503, an unexpected status or a failed request is a rejection,
  which the cache does not keep; still, a 503 reaches the endpoint as a status code, so that the
  client is delayed and counted like any refused one, while other failures are refused at once
  and captured.\<close>

theorem auth_cacheable:
  "((\<exists>s. checkDeviceAuth_fetch cfg get u p = Inr s) \<longleftrightarrow>
      get (auth_request cfg u p) \<in> {Inr 200, Inr 401, Inr 403}) \<and>
   (checkDeviceAuth (checkDeviceAuth_fetch cfg get u p) = Inr 503 \<longleftrightarrow>
      get (auth_request cfg u p) = Inr 503) \<and>
   ((\<exists>e. checkDeviceAuth (checkDeviceAuth_fetch cfg get u p) = Inl e) \<longleftrightarrow>
      get (auth_request cfg u p) \<notin> {Inr 200, Inr 401, Inr 403, Inr 503})"
  by (cases "get (auth_request cfg u p)")
    (auto simp: checkDeviceAuth_def checkDeviceAuth_fetch_def auth_status_def split: auth_error.splits)

end
