(* ===== verification/Openvpn.thy ===== *)
theory Openvpn
  imports Netmask
begin

text \<open>
  \<^verbatim>\<open>src/utils/openvpn.ts\<close>: the class \<open>VpnManager\<close>, which starts an OpenVPN process and
  turns the text of its management console into events.  The console's output is modelled as
  characters; the code decodes each chunk as UTF-8 on its own, which is the same for ASCII text
  but not for a character of several bytes that is cut between two chunks.

  The first part models the console protocol.  The \<open>data\<close> listener cuts the byte stream into
  lines, keeping an unfinished line in \<open>buf\<close>; each trimmed line goes to the one registered
  line handler, which is either \<open>dataHandler\<close> or the closure that
  \<open>clientEventEmitterFactory\<close> made for the client event being read.  The second part models
  the command line, the console commands and the start-up of the process.
\<close>

subsection \<open>State and events\<close>

text \<open>The environment of a client event: a JavaScript object from keys to strings, where a line
  without an equals sign stores \<open>undefined\<close>.\<close>

type_synonym client_env = "(string \<times> string option) list"

datatype line_handler =
    DataHandler
  | ClientEventEmitter string "int option" "string list" client_env

datatype vpn_event =
    EvLog "string option" string
  | EvClient string "int option" "string list" client_env
  | EvBytecount "int option" "int option" "int option"
  | EvProcessError string
  | EvProcessExit "int option" "string option"
  | EvManagerConnect

record vpn_manager =
  instanceId :: int
  vpnPort :: int
  mgtPort :: int
  subnet :: "netmask option"
  gateway :: "string option"
  buf :: string
  handler :: line_handler
  spawned :: "string list option"

definition VpnManager_new ::
  "int \<Rightarrow> int \<Rightarrow> int \<Rightarrow> netmask option \<Rightarrow> string option \<Rightarrow> vpn_manager" where
  "VpnManager_new inst vport mport sub gw =
     \<lparr> instanceId = inst, vpnPort = vport, mgtPort = mport, subnet = sub, gateway = gw,
       buf = [], handler = DataHandler, spawned = None \<rparr>"

subsection \<open>The line handlers\<close>

text \<open>\<open>VpnLogLevels\<close>: \<open>None\<close> is \<open>undefined\<close>, for a letter that is not a key.\<close>

definition VpnLogLevels :: "string \<Rightarrow> string option" where
  "VpnLogLevels k =
     map_of [(''D'', ''debug''), (''I'', ''info''), (''n'', ''notice''),
             (''W'', ''warning''), (''N'', ''error''), (''F'', ''emerg'')] k"

definition event_types :: "string list" where
  "event_types = [''ESTABLISHED'', ''CONNECT'', ''ADDRESS'', ''DISCONNECT'']"

definition log_event :: "string \<Rightarrow> vpn_event" where
  "log_event data =
     (let parts = split_char CHR '','' (drop 5 data);
          level = (case parts of (_ # l # _) \<Rightarrow> l | _ \<Rightarrow> '''')
      in EvLog (VpnLogLevels (if level = '''' then ''n'' else level)) (join '','' (drop 2 parts)))"

definition bytecount_event :: "string \<Rightarrow> vpn_event" where
  "bytecount_event data =
     (case split_char CHR '','' (drop (length ''>BYTECOUNT_CLI:'') data) of
        (c # r # t # _) \<Rightarrow> EvBytecount (parseInt c) (parseInt r) (parseInt t)
      | [c, r] \<Rightarrow> EvBytecount (parseInt c) (parseInt r) None
      | [c] \<Rightarrow> EvBytecount (parseInt c) None None
      | [] \<Rightarrow> EvBytecount None None None)"

definition dataHandler :: "vpn_manager \<Rightarrow> string \<Rightarrow> vpn_manager \<times> vpn_event list" where
  "dataHandler m data =
     (if starts_with data ''>LOG:'' then (m, [log_event data])
      else if starts_with data ''>CLIENT:'' then
        (let eventData = drop (length ''>CLIENT:'') data
         in case find (starts_with eventData) event_types of
              None \<Rightarrow> (m, [])
            | Some eventType \<Rightarrow>
                (let parts = split_char CHR '','' (drop (length eventType + 1) eventData)
                 in (m\<lparr>handler := ClientEventEmitter (toLowerCase eventType)
                        (parseInt (hd parts)) (tl parts) []\<rparr>, [])))
      else if starts_with data ''>BYTECOUNT_CLI:'' then (m, [bytecount_event data])
      else (m, []))"

text \<open>\<open>env[key] = val\<close>.  Assigning a string to \<open>__proto__\<close> has no effect on an object.\<close>

definition env_set :: "string \<Rightarrow> string option \<Rightarrow> client_env \<Rightarrow> client_env" where
  "env_set key v env = (if key = ''__proto__'' then env else AList.update key v env)"

definition env_line :: "string \<Rightarrow> client_env \<Rightarrow> client_env" where
  "env_line data env =
     (let parts = split_char CHR ''='' (drop (length ''>CLIENT:ENV'' + 1) data)
      in env_set (hd parts) (case tl parts of [] \<Rightarrow> None | v # _ \<Rightarrow> Some v) env)"

text \<open>The closure of \<open>clientEventEmitterFactory\<close>.  Any line that is not part of the environment
  ends the event; unless it is the end marker, the line is emitted again, to \<open>dataHandler\<close>.\<close>

definition emitter ::
  "string \<Rightarrow> int option \<Rightarrow> string list \<Rightarrow> client_env \<Rightarrow> vpn_manager \<Rightarrow> string \<Rightarrow>
   vpn_manager \<times> vpn_event list" where
  "emitter eventName clientId eventArgs env m data =
     (if starts_with data ''>CLIENT:ENV'' \<and> data \<noteq> ''>CLIENT:ENV,END''
      then (m\<lparr>handler := ClientEventEmitter eventName clientId eventArgs (env_line data env)\<rparr>, [])
      else
        let m' = m\<lparr>handler := DataHandler\<rparr>;
            (m'', evs) = (if data \<noteq> ''>CLIENT:ENV,END'' then dataHandler m' data else (m', []))
        in (m'', EvClient eventName clientId eventArgs env # evs))"

definition on_line :: "vpn_manager \<Rightarrow> string \<Rightarrow> vpn_manager \<times> vpn_event list" where
  "on_line m data =
     (case handler m of
        DataHandler \<Rightarrow> dataHandler m data
      | ClientEventEmitter n c as env \<Rightarrow> emitter n c as env m data)"

text \<open>The \<open>data\<close> listener of the connector.\<close>

definition on_data :: "vpn_manager \<Rightarrow> string \<Rightarrow> vpn_manager \<times> vpn_event list" where
  "on_data m data =
     (let lines = split_lines (buf m @ data)
      in run_events on_line (m\<lparr>buf := last lines\<rparr>) (map trim (butlast lines)))"

subsection \<open>Command line and console commands\<close>

record openvpn_config =
  VPN_API_PORT :: int
  VPN_DOWNRATE :: "string option"
  VPN_UPRATE :: "string option"
  LEARN_ADDRESS_DEBUG :: bool
  VPN_STATUS_FILE_WRITE_INTERVAL_SECONDS :: int

text \<open>JavaScript truth of an optional string.\<close>

definition truthy :: "string option \<Rightarrow> bool" where
  "truthy s \<longleftrightarrow> s \<noteq> None \<and> s \<noteq> Some ''''"

definition throttle_args :: "openvpn_config \<Rightarrow> vpn_manager \<Rightarrow> string list" where
  "throttle_args cfg m =
     (if truthy (VPN_DOWNRATE cfg) \<and> truthy (VPN_UPRATE cfg)
      then [''--plugin'',
            ''/etc/openvpn/plugins/openvpn-plugin-learn-address-script.so'',
            ''/etc/openvpn/scripts/learn-address.sh'',
            the (VPN_DOWNRATE cfg), the (VPN_UPRATE cfg),
            ''tun'' @ show_int (instanceId m)] @
           (if LEARN_ADDRESS_DEBUG cfg then [''debug''] else [])
      else [])"

definition manager_pidFile :: "vpn_manager \<Rightarrow> string" where
  "manager_pidFile m = ''/var/run/openvpn/server-'' @ show_int (instanceId m) @ ''.pid''"

definition manager_args :: "openvpn_config \<Rightarrow> vpn_manager \<Rightarrow> string list result" where
  "manager_args cfg m =
     (case subnet m of
        None \<Rightarrow> Inl JsTypeError
      | Some sub \<Rightarrow>
          let gw = (case gateway m of Some g \<Rightarrow> g | None \<Rightarrow> first_addr sub)
          in Inr ([''--status-version'', ''2'',
             ''--writepid'', manager_pidFile m,
             ''--status'', ''/run/openvpn/server-'' @ show_int (instanceId m) @ ''.status'',
             show_int (VPN_STATUS_FILE_WRITE_INTERVAL_SECONDS cfg),
             ''--cd'', ''/etc/openvpn'',
             ''--config'', ''/etc/openvpn/server.conf'',
             ''--verb'', ''3'',
             ''--dev'', ''tun'' @ show_int (instanceId m),
             ''--txqueuelen'', ''1000'',
             ''--port'', show_int (vpnPort m),
             ''--management'', ''127.0.0.1'', show_int (mgtPort m),
             ''--management-hold'',
             ''--ifconfig'', gw, second_addr sub,
             ''--ifconfig-pool'', third_addr sub, last_addr sub,
             ''--route'', base_addr sub, mask_addr sub,
             ''--push'', ''route '' @ gw,
             ''--plugin'',
             ''/etc/openvpn/plugins/openvpn-plugin-connect-disconnect-script.so'',
             ''/etc/openvpn/scripts/client-connect-disconnect.sh'',
             show_int (instanceId m), show_int (VPN_API_PORT cfg)] @
             throttle_args cfg m @
             [''--plugin'', ''/etc/openvpn/plugins/openvpn-plugin-auth-script.so'',
              ''/etc/openvpn/scripts/auth'', show_int (VPN_API_PORT cfg)]))"

definition enableLogging :: string where
  "enableLogging = ''log on all''"

definition enableBytecountReporting :: "int \<Rightarrow> string" where
  "enableBytecountReporting interval = ''bytecount '' @ show_int interval"

definition releaseHold :: string where
  "releaseHold = ''hold release''"

definition killClient :: "string \<Rightarrow> string" where
  "killClient cn = ''kill '' @ cn"

subsection \<open>Starting the process\<close>

text \<open>\<open>process.kill\<close> is the environment: \<open>kill pid k sig\<close> says whether the \<open>k\<close>-th signal was
  delivered (the code's wrapper returns \<open>true\<close> then, \<open>false\<close> when \<open>process.kill\<close> throws), and
  \<open>elapsed k\<close> is the clock of the \<open>k\<close>-th round.\<close>

datatype signal = SIGPING | SIGTERM | SIGKILL

definition TERM_TIMEOUT :: int where "TERM_TIMEOUT = 5 * 1000"

definition KILL_TIMEOUT :: int where "KILL_TIMEOUT = TERM_TIMEOUT * 2"

definition orphan_timeout :: js_error where
  "orphan_timeout = TimeoutError ''orphan openvpn process did not go away''"

partial_function (option) orphan_loop ::
  "(nat \<Rightarrow> signal \<Rightarrow> bool) \<Rightarrow> (nat \<Rightarrow> int) \<Rightarrow> nat \<Rightarrow> bool \<Rightarrow> unit result option" where
  "orphan_loop kill elapsed k err =
     (if err then Some (Inr ())
      else if elapsed k < TERM_TIMEOUT then orphan_loop kill elapsed (k + 1) (kill (k + 1) SIGPING)
      else if elapsed k < KILL_TIMEOUT then orphan_loop kill elapsed (k + 1) (kill (k + 1) SIGKILL)
      else Some (Inl orphan_timeout))"

definition orphan_pid :: "string \<Rightarrow> int option" where
  "orphan_pid content = parseInt (filter is_digit content)"

definition killOrphan ::
  "string option \<Rightarrow> (int option \<Rightarrow> nat \<Rightarrow> signal \<Rightarrow> bool) \<Rightarrow> (nat \<Rightarrow> int) \<Rightarrow> unit result option" where
  "killOrphan pidFile kill elapsed =
     (case pidFile of
        None \<Rightarrow> Some (Inr ())
      | Some content \<Rightarrow>
          let pid = orphan_pid content
          in orphan_loop (kill pid) elapsed 0 (kill pid 0 SIGTERM))"

text \<open>What the listeners on the child process emit for its output, its failure to start and its
  end: output lines are log events of level \<open>notice\<close>.\<close>

datatype process_output =
    ProcessLine string
  | ProcessError string
  | ProcessExit "int option" "string option"

fun process_event :: "process_output \<Rightarrow> vpn_event" where
  "process_event (ProcessLine data) = EvLog (VpnLogLevels ''n'') data"
| "process_event (ProcessError err) = EvProcessError err"
| "process_event (ProcessExit code sig) = EvProcessExit code sig"

definition STARTUP_TIMEOUT :: int where "STARTUP_TIMEOUT = 5 * 1000"

text \<open>One attempt to reach the management port: how the promise of \<open>pTimeout\<close> ended.  It depends on
  the sockets and on the package \<^verbatim>\<open>p-timeout\<close>, which is given the time that is left:
  \<open>attempts k ms\<close> is the outcome of the \<open>k\<close>-th attempt with a timeout of \<open>ms\<close> milliseconds.  A
  rejection that is not a \<open>TimeoutError\<close>, whatever its cause, is \<open>SocketNotReady\<close>.\<close>

datatype attempt = SocketReady | SocketNotReady | AttemptTimedOut string

partial_function (option) waitForStart ::
  "(nat \<Rightarrow> int \<Rightarrow> attempt) \<Rightarrow> (nat \<Rightarrow> int) \<Rightarrow> nat \<Rightarrow> unit result option" where
  "waitForStart attempts since k =
     (case attempts k (STARTUP_TIMEOUT - since k) of
        SocketReady \<Rightarrow> Some (Inr ())
      | AttemptTimedOut msg \<Rightarrow> Some (Inl (TimeoutError msg))
      | SocketNotReady \<Rightarrow> waitForStart attempts since (k + 1))"

definition manager_start ::
  "openvpn_config \<Rightarrow> vpn_manager \<Rightarrow> string option \<Rightarrow> (int option \<Rightarrow> nat \<Rightarrow> signal \<Rightarrow> bool) \<Rightarrow>
   (nat \<Rightarrow> int) \<Rightarrow> (nat \<Rightarrow> int \<Rightarrow> attempt) \<Rightarrow> (nat \<Rightarrow> int) \<Rightarrow> (vpn_manager \<times> unit result) option" where
  "manager_start cfg m pidFile kill elapsed attempts since =
     (case killOrphan pidFile kill elapsed of
        None \<Rightarrow> None
      | Some (Inl e) \<Rightarrow> Some (m, Inl e)
      | Some (Inr _) \<Rightarrow>
          (case manager_args cfg m of
             Inl e \<Rightarrow> Some (m, Inl e)
           | Inr as \<Rightarrow> map_option (Pair (m\<lparr>spawned := Some as\<rparr>)) (waitForStart attempts since 0)))"

text \<open>\<open>pid\<close>, given the process id of the child, and the options of \<open>connect\<close>.\<close>

definition manager_pid :: "int \<Rightarrow> vpn_manager \<Rightarrow> int option" where
  "manager_pid child m = (if spawned m \<noteq> None then Some child else None)"

definition connect_options :: "vpn_manager \<Rightarrow> (string \<times> string) list" where
  "connect_options m =
     [(''host'', ''127.0.0.1''), (''port'', show_int (mgtPort m)), (''shellPrompt'', ''''),
      (''negotiationMandatory'', ''true''), (''ors'', [CR, LF]), (''sendTimeout'', ''3000'')]"

text \<open>\<open>stop\<close>: whether a signal is sent to the child process.\<close>

definition manager_stop :: "vpn_manager \<Rightarrow> bool" where
  "manager_stop m \<longleftrightarrow> spawned m \<noteq> None"

subsection \<open>The console protocol as messages\<close>

text \<open>The specification of the console's output: messages, how OpenVPN prints each of them as
  lines, and the event each of them stands for.  An address notice has no environment block, so
  its end is only seen when the next line arrives: \<open>pending\<close> is what such a manager still
  owes.\<close>

datatype console_msg =
    MLog string string string
  | MBytecount int int int
  | MClient string int "string list" "(string \<times> string) list"
  | MAddress int "string list"
  | MOther string

definition head_line :: "string \<Rightarrow> int \<Rightarrow> string list \<Rightarrow> string" where
  "head_line ty cid as = ''>CLIENT:'' @ ty @ '','' @ join '','' (show_int cid # as)"

definition env_text :: "string \<times> string \<Rightarrow> string" where
  "env_text kv = ''>CLIENT:ENV,'' @ fst kv @ ''='' @ snd kv"

fun msg_lines :: "console_msg \<Rightarrow> string list" where
  "msg_lines (MLog t l m) = [''>LOG:'' @ t @ '','' @ l @ '','' @ m]"
| "msg_lines (MBytecount c r t) =
     [''>BYTECOUNT_CLI:'' @ join '','' [show_int c, show_int r, show_int t]]"
| "msg_lines (MClient ty c as env) =
     head_line ty c as # map env_text env @ [''>CLIENT:ENV,END'']"
| "msg_lines (MAddress c as) = [head_line ''ADDRESS'' c as]"
| "msg_lines (MOther l) = [l]"

definition msg_text :: "console_msg \<Rightarrow> string" where
  "msg_text msg = concat (map (\<lambda>l. l @ [CR, LF]) (msg_lines msg))"

text \<open>The reader splits a line of an environment at every equals sign and keeps two parts, so of a
  value it keeps what comes before its first equals sign.\<close>

definition cut_value :: "string \<Rightarrow> string" where
  "cut_value v = takeWhile (\<lambda>c. c \<noteq> CHR ''='') v"

fun msg_events :: "console_msg \<Rightarrow> vpn_event list" where
  "msg_events (MLog t l m) = [EvLog (VpnLogLevels (if l = '''' then ''n'' else l)) m]"
| "msg_events (MBytecount c r t) = [EvBytecount (Some c) (Some r) (Some t)]"
| "msg_events (MClient ty c as env) =
     [EvClient (toLowerCase ty) (Some c) as (map (\<lambda>(k, v). (k, Some (cut_value v))) env)]"
| "msg_events (MAddress c as) = [EvClient ''address'' (Some c) as []]"
| "msg_events (MOther l) = []"

text \<open>What is assumed of the printed messages: a line is one line and has no white space around it; the
  time and the level of a log line and the arguments of an event have no comma; the names of an
  environment's variables are different, have no equals sign and are not \<open>__proto__\<close>; other lines
  do not begin like one of the messages that are read.  Values of variables may be anything.\<close>

definition line_ok :: "string \<Rightarrow> bool" where
  "line_ok l \<longleftrightarrow> LF \<notin> set l \<and> trim l = l"

definition env_ok :: "(string \<times> string) list \<Rightarrow> bool" where
  "env_ok env \<longleftrightarrow> distinct (map fst env) \<and>
     list_all (\<lambda>(k, v). CHR ''='' \<notin> set k \<and> k \<noteq> ''__proto__'') env"

fun msg_ok :: "console_msg \<Rightarrow> bool" where
  "msg_ok (MLog t l m) = (CHR '','' \<notin> set t \<and> CHR '','' \<notin> set l)"
| "msg_ok (MBytecount c r t) = True"
| "msg_ok (MClient ty c as env) =
     (ty \<in> {''ESTABLISHED'', ''CONNECT'', ''DISCONNECT''} \<and>
      list_all (\<lambda>a. CHR '','' \<notin> set a) as \<and> env_ok env)"
| "msg_ok (MAddress c as) = list_all (\<lambda>a. CHR '','' \<notin> set a) as"
| "msg_ok (MOther l) =
     (\<not> starts_with l ''>LOG:'' \<and> \<not> starts_with l ''>CLIENT:'' \<and> \<not> starts_with l ''>BYTECOUNT_CLI:'')"

definition console_ok :: "console_msg list \<Rightarrow> bool" where
  "console_ok msgs \<longleftrightarrow> list_all (\<lambda>msg. msg_ok msg \<and> list_all line_ok (msg_lines msg)) msgs"

definition pending :: "vpn_manager \<Rightarrow> vpn_event list" where
  "pending m =
     (case handler m of DataHandler \<Rightarrow> [] | ClientEventEmitter n c as env \<Rightarrow> [EvClient n c as env])"

subsection \<open>Chunk independence\<close>

lemma dataHandler_buf:
  "dataHandler (m\<lparr>buf := b\<rparr>) l = (let (m', evs) = dataHandler m l in (m'\<lparr>buf := b\<rparr>, evs))"
  by (simp add: dataHandler_def Let_def split: option.splits)

lemma on_line_buf:
  "on_line (m\<lparr>buf := b\<rparr>) l = (let (m', evs) = on_line m l in (m'\<lparr>buf := b\<rparr>, evs))"
proof -
  have "m\<lparr>buf := b, handler := DataHandler\<rparr> = m\<lparr>handler := DataHandler, buf := b\<rparr>"
    by simp
  then have "dataHandler (m\<lparr>buf := b, handler := DataHandler\<rparr>) l =
      (let (m', evs) = dataHandler (m\<lparr>handler := DataHandler\<rparr>) l in (m'\<lparr>buf := b\<rparr>, evs))"
    by (simp only: dataHandler_buf)
  then show ?thesis
    by (auto simp: on_line_def emitter_def dataHandler_buf Let_def split: line_handler.splits prod.splits)
qed

lemma run_on_line_buf:
  "run_events on_line (m\<lparr>buf := b\<rparr>) ls =
     (let (m', evs) = run_events on_line m ls in (m'\<lparr>buf := b\<rparr>, evs))"
  by (induction ls arbitrary: m) (auto simp: on_line_buf Let_def split: prod.splits)

lemma on_data_eq:
  "on_data m data =
     (let (m', evs) = run_events on_line m (map trim (butlast (split_lines (buf m @ data))))
      in (m'\<lparr>buf := last (split_lines (buf m @ data))\<rparr>, evs))"
  by (simp add: on_data_def Let_def run_on_line_buf)

lemma on_data_append:
  "on_data m (a @ b) = (let (m', e1) = on_data m a; (m'', e2) = on_data m' b in (m'', e1 @ e2))"
proof -
  let ?p = "split_lines (buf m @ a)"
  let ?q = "split_lines (last ?p @ b)"
  have s: "split_lines (buf m @ a @ b) = butlast ?p @ ?q"
    using split_lines_append [of "buf m @ a" b] by simp
  have bl: "butlast (butlast ?p @ ?q) = butlast ?p @ butlast ?q" and la: "last (butlast ?p @ ?q) = last ?q"
    by (simp_all add: butlast_append)
  obtain m1 e1 where 1: "run_events on_line m (map trim (butlast ?p)) = (m1, e1)" by fastforce
  obtain m2 e2 where 2: "run_events on_line m1 (map trim (butlast ?q)) = (m2, e2)" by fastforce
  have a: "on_data m a = (m1\<lparr>buf := last ?p\<rparr>, e1)"
    using 1 by (simp add: on_data_eq)
  have b: "on_data (m1\<lparr>buf := last ?p\<rparr>) b = (m2\<lparr>buf := last ?q\<rparr>, e2)"
    using 2 by (simp add: on_data_eq run_on_line_buf)
  have "on_data m (a @ b) = (m2\<lparr>buf := last ?q\<rparr>, e1 @ e2)"
    by (simp add: on_data_eq s bl la run_events_append 1 2)
  then show ?thesis by (simp add: a b)
qed

lemma on_data_chunks:
  "chunks \<noteq> [] \<Longrightarrow> run_events on_data m chunks = on_data m (concat chunks)"
proof (induction chunks arbitrary: m)
  case (Cons c cs)
  show ?case
  proof (cases "cs = []")
    case True
    then show ?thesis by (simp split: prod.splits)
  next
    case False
    then show ?thesis
      using Cons.IH by (simp add: on_data_append split: prod.splits)
  qed
qed simp

subsection \<open>Reading the messages back\<close>

lemma on_line_head:
  assumes "\<not> starts_with l ''>CLIENT:ENV''"
  shows "on_line m l =
    (let (m', evs) = dataHandler (m\<lparr>handler := DataHandler\<rparr>) l in (m', pending m @ evs))"
proof (cases "handler m")
  case DataHandler
  then have "m = m\<lparr>handler := DataHandler\<rparr>" by simp
  then have "dataHandler (m\<lparr>handler := DataHandler\<rparr>) l = dataHandler m l" by (rule arg_cong [OF sym])
  with DataHandler show ?thesis by (simp add: on_line_def pending_def split: prod.splits)
next
  case (ClientEventEmitter n c as env)
  have "l \<noteq> ''>CLIENT:ENV,END''" using assms by auto
  with ClientEventEmitter assms show ?thesis
    by (simp add: on_line_def emitter_def pending_def Let_def split: prod.splits)
qed

lemma VpnLogLevels_line:
  assumes "CHR '','' \<notin> set t" "CHR '','' \<notin> set l"
  shows "log_event (''>LOG:'' @ t @ '','' @ l @ '','' @ msg) =
    EvLog (VpnLogLevels (if l = '''' then ''n'' else l)) msg"
  using assms by (simp add: log_event_def split_char_append join_split_char)

lemma comma_not_in_show_int [simp]: "CHR '','' \<notin> set (show_int i)"
proof -
  have "CHR '','' \<notin> set (show_nat n)" for n
    using show_nat_digits [of n] by (auto simp: is_digit_def)
  then show ?thesis by (simp add: show_int_def)
qed

lemma bytecount_event_line:
  "bytecount_event (''>BYTECOUNT_CLI:'' @ join '','' [show_int c, show_int r, show_int t]) =
     EvBytecount (Some c) (Some r) (Some t)"
  by (simp add: bytecount_event_def split_char_append split_char_none)

lemma find_event_type:
  assumes "ty \<in> set event_types"
  shows "find (starts_with (ty @ '','' @ r)) event_types = Some ty"
proof -
  consider "ty = ''ESTABLISHED''" | "ty = ''CONNECT''" | "ty = ''ADDRESS''" | "ty = ''DISCONNECT''"
    using assms by (auto simp: event_types_def)
  then show ?thesis by cases (simp_all add: event_types_def)
qed

lemma head_line_split:
  assumes "list_all (\<lambda>a. CHR '','' \<notin> set a) as"
  shows "split_char CHR '','' (join '','' (show_int c # as)) = show_int c # as"
  using assms split_char_join [of "show_int c # as" "CHR '',''"] by (simp add: list_all_iff)

lemma dataHandler_head:
  assumes "ty \<in> set event_types" "list_all (\<lambda>a. CHR '','' \<notin> set a) as"
  shows "dataHandler m (head_line ty c as) =
    (m\<lparr>handler := ClientEventEmitter (toLowerCase ty) (Some c) as []\<rparr>, [])"
proof -
  have "find (starts_with (ty @ '','' @ join '','' (show_int c # as))) event_types = Some ty"
    by (rule find_event_type [OF assms(1)])
  then show ?thesis
    using head_line_split [OF assms(2), of c]
    by (simp add: dataHandler_def head_line_def del: join.simps)
qed

lemma head_line_not_env:
  "ty \<in> set event_types \<Longrightarrow> \<not> starts_with (head_line ty c as) ''>CLIENT:ENV''"
  by (auto simp: head_line_def event_types_def)

lemma env_line_text:
  assumes "CHR ''='' \<notin> set k" "k \<noteq> ''__proto__''" "k \<notin> fst ` set env"
  shows "env_line (env_text (k, v)) env = env @ [(k, Some (cut_value v))]"
proof -
  obtain rest where "split_char CHR ''='' v = cut_value v # rest"
    unfolding cut_value_def using split_char_first by blast
  then show ?thesis
    using assms
    by (simp add: env_line_def env_text_def env_set_def split_char_append split_char_none update_fresh)
qed

lemma on_line_env:
  assumes "handler m = ClientEventEmitter n c as env" "CHR ''='' \<in> set r"
  shows "on_line m (''>CLIENT:ENV,'' @ r) =
    (m\<lparr>handler := ClientEventEmitter n c as (env_line (''>CLIENT:ENV,'' @ r) env)\<rparr>, [])"
proof -
  have "r \<noteq> ''END''" using assms(2) by auto
  then show ?thesis using assms(1) by (simp add: on_line_def emitter_def)
qed

lemma run_env_block:
  assumes "handler m = ClientEventEmitter n c as acc"
    and "env_ok env" "fst ` set env \<inter> fst ` set acc = {}"
  shows "\<exists>m'. run_events on_line m (map env_text env @ [''>CLIENT:ENV,END'']) =
      (m', [EvClient n c as (acc @ map (\<lambda>(k, v). (k, Some (cut_value v))) env)]) \<and> handler m' = DataHandler"
  using assms
proof (induction env arbitrary: m acc)
  case Nil
  then show ?case by (simp add: on_line_def emitter_def)
next
  case (Cons kv env)
  obtain k v where kv: "kv = (k, v)" by fastforce
  let ?m = "m\<lparr>handler := ClientEventEmitter n c as (acc @ [(k, Some (cut_value v))])\<rparr>"
  have "env_line (env_text (k, v)) acc = acc @ [(k, Some (cut_value v))]"
    using Cons.prems kv by (intro env_line_text) (auto simp: env_ok_def)
  then have step: "on_line m (env_text kv) = (?m, [])"
    using on_line_env [OF Cons.prems(1), of "k @ ''='' @ v"] kv by (simp add: env_text_def)
  have "env_ok env" "fst ` set env \<inter> fst ` set (acc @ [(k, Some (cut_value v))]) = {}"
    using Cons.prems kv by (auto simp: env_ok_def)
  with Cons.IH [of ?m "acc @ [(k, Some (cut_value v))]"] obtain m' where
    "run_events on_line ?m (map env_text env @ [''>CLIENT:ENV,END'']) =
      (m', [EvClient n c as (acc @ (k, Some (cut_value v)) # map (\<lambda>(k, v). (k, Some (cut_value v))) env)])"
    "handler m' = DataHandler"
    by auto
  then show ?case using step kv by simp
qed

lemma pending_emitter [simp]:
  "handler m = ClientEventEmitter n c as env \<Longrightarrow> pending m = [EvClient n c as env]"
  "handler m = DataHandler \<Longrightarrow> pending m = []"
  by (simp_all add: pending_def)

lemma run_head:
  assumes "ty \<in> set event_types" "list_all (\<lambda>a. CHR '','' \<notin> set a) as"
  shows "on_line m (head_line ty c as) =
    (m\<lparr>handler := ClientEventEmitter (toLowerCase ty) (Some c) as []\<rparr>, pending m)"
  using assms by (simp add: on_line_head head_line_not_env dataHandler_head)

lemma toLowerCase_ADDRESS [simp]: "toLowerCase ''ADDRESS'' = ''address''"
  by code_simp

text \<open>A manager between two messages owes at most an address notice.\<close>

definition between :: "vpn_manager \<Rightarrow> bool" where
  "between m \<longleftrightarrow> handler m = DataHandler \<or> (\<exists>c as. handler m = ClientEventEmitter ''address'' c as [])"

lemma between_pending:
  "between m \<Longrightarrow> pending m = [] \<or> (\<exists>c as. pending m = [EvClient ''address'' c as []])"
  by (auto simp: between_def)

lemma between_simps [simp]:
  "between (m\<lparr>handler := DataHandler\<rparr>)"
  "between (m\<lparr>handler := ClientEventEmitter ''address'' c as []\<rparr>)"
  "handler m = DataHandler \<Longrightarrow> between m"
  by (simp_all add: between_def)

text \<open>A manager that has read a message owes what it owed before and the message's events.\<close>

lemma read_msg:
  assumes "msg_ok msg"
  shows "\<exists>m' evs. run_events on_line m (msg_lines msg) = (m', evs) \<and>
    evs @ pending m' = pending m @ msg_events msg \<and> between m'"
proof (cases msg)
  case (MLog t l x)
  then have ok: "CHR '','' \<notin> set t" "CHR '','' \<notin> set l" using assms by auto
  let ?l = "''>LOG:'' @ t @ '','' @ l @ '','' @ x"
  have "dataHandler (m\<lparr>handler := DataHandler\<rparr>) ?l =
      (m\<lparr>handler := DataHandler\<rparr>, [log_event ?l])"
    by (simp add: dataHandler_def)
  then have "on_line m ?l = (m\<lparr>handler := DataHandler\<rparr>, pending m @ [log_event ?l])"
    by (simp add: on_line_head)
  then show ?thesis
    using MLog VpnLogLevels_line [OF ok] by simp
next
  case (MBytecount c r t)
  let ?l = "''>BYTECOUNT_CLI:'' @ join '','' [show_int c, show_int r, show_int t]"
  have "dataHandler (m\<lparr>handler := DataHandler\<rparr>) ?l =
      (m\<lparr>handler := DataHandler\<rparr>, [bytecount_event ?l])"
    by (simp add: dataHandler_def)
  then have "on_line m ?l = (m\<lparr>handler := DataHandler\<rparr>, pending m @ [bytecount_event ?l])"
    by (simp add: on_line_head)
  then show ?thesis
    using MBytecount bytecount_event_line by simp
next
  case (MClient ty c as env)
  then have ty: "ty \<in> set event_types" and as: "list_all (\<lambda>a. CHR '','' \<notin> set a) as" and env: "env_ok env"
    using assms by (auto simp: event_types_def)
  let ?m = "m\<lparr>handler := ClientEventEmitter (toLowerCase ty) (Some c) as []\<rparr>"
  obtain m' where
    "run_events on_line ?m (map env_text env @ [''>CLIENT:ENV,END'']) =
      (m', [EvClient (toLowerCase ty) (Some c) as (map (\<lambda>(k, v). (k, Some (cut_value v))) env)])"
    "handler m' = DataHandler"
    using run_env_block [of ?m "toLowerCase ty" "Some c" as "[]" env] env by auto
  then show ?thesis using MClient run_head [OF ty as] by simp
next
  case (MAddress c as)
  then show ?thesis
    using assms run_head [of "''ADDRESS''" as m c] by (simp add: event_types_def)
next
  case (MOther l)
  then have "dataHandler (m\<lparr>handler := DataHandler\<rparr>) l = (m\<lparr>handler := DataHandler\<rparr>, [])"
    using assms by (simp add: dataHandler_def)
  moreover have "\<not> starts_with l ''>CLIENT:ENV''"
    using assms MOther by (auto simp: starts_with_iff)
  ultimately show ?thesis using MOther by (simp add: on_line_head)
qed

lemma read_msgs:
  assumes "list_all msg_ok msgs" "between m"
  shows "\<exists>m' evs. run_events on_line m (concat (map msg_lines msgs)) = (m', evs) \<and>
    evs @ pending m' = pending m @ concat (map msg_events msgs) \<and> between m'"
  using assms
proof (induction msgs arbitrary: m)
  case (Cons msg msgs)
  obtain m1 e1 where 1: "run_events on_line m (msg_lines msg) = (m1, e1)"
    "e1 @ pending m1 = pending m @ msg_events msg" "between m1"
    using read_msg [of msg m] Cons.prems by auto
  obtain m2 e2 where 2: "run_events on_line m1 (concat (map msg_lines msgs)) = (m2, e2)"
    "e2 @ pending m2 = pending m1 @ concat (map msg_events msgs)" "between m2"
    using Cons.IH [of m1] Cons.prems 1(3) by auto
  have "(e1 @ e2) @ pending m2 = pending m @ msg_events msg @ concat (map msg_events msgs)"
    using 1(2) 2(2) by (metis append.assoc)
  then show ?case using 1(1) 2(1,3) by (simp add: run_events_append)
qed simp

lemma msg_lines_nonempty [simp]: "msg_lines msg \<noteq> []"
  by (cases msg) auto

lemma console_text:
  "concat (map msg_text msgs) = concat (map (\<lambda>l. l @ [CR, LF]) (concat (map msg_lines msgs)))"
  by (induction msgs) (simp_all add: msg_text_def)

lemma console_lines:
  assumes "console_ok msgs"
  shows "split_lines (concat (map msg_text msgs)) = concat (map msg_lines msgs) @ [[]]"
    and "map trim (concat (map msg_lines msgs)) = concat (map msg_lines msgs)"
proof -
  have ok: "\<forall>l \<in> set (concat (map msg_lines msgs)). line_ok l"
    using assms by (auto simp: console_ok_def list_all_iff)
  then show "split_lines (concat (map msg_text msgs)) = concat (map msg_lines msgs) @ [[]]"
    by (simp only: console_text) (rule split_lines_text, auto simp: line_ok_def)
  show "map trim (concat (map msg_lines msgs)) = concat (map msg_lines msgs)"
    using ok by (intro map_idI) (auto simp: line_ok_def)
qed

lemma between_buf [simp]: "between (m\<lparr>buf := b\<rparr>) = between m"
  by (simp add: between_def)

lemma read_console:
  assumes "console_ok msgs" and "concat chunks = concat (map msg_text msgs)"
    and "handler m = DataHandler" "buf m = ''''"
  shows "\<exists>m' evs. run_events on_data m chunks = (m', evs) \<and> buf m' = '''' \<and>
    evs @ pending m' = concat (map msg_events msgs) \<and> between m'"
proof (cases "chunks = []")
  case True
  then have "msgs = []" using assms(2) by (cases msgs) (auto simp: msg_text_def)
  then show ?thesis using True assms(3,4) by simp
next
  case False
  obtain m' evs where run: "run_events on_line m (concat (map msg_lines msgs)) = (m', evs)"
    "evs @ pending m' = concat (map msg_events msgs)" "between m'"
    using read_msgs [of msgs m] assms(1,3) by (auto simp: console_ok_def list_all_iff)
  have "run_events on_data m chunks = on_data m (concat (map msg_text msgs))"
    using on_data_chunks [OF False] assms(2) by simp
  also have "\<dots> = (m'\<lparr>buf := ''''\<rparr>, evs)"
    by (simp add: on_data_eq assms(4) console_lines [OF assms(1)] run(1))
  finally show ?thesis using run(2,3) by (simp add: pending_def)
qed

text \<open>C9. OpenVPN prints a sequence of messages on its management console -- log lines, byte counts,
  client events with their environment blocks, address notices, other output -- whose lines have
  no white space around them, whose arguments have no comma and whose environments have different
  names without an equals sign (\<open>console_ok\<close>).  However the telnet connection cuts the bytes into
  chunks, even inside a line or between the two characters of a line end, the manager emits
  exactly the printed messages' events, in order; an event carries the environment as it was
  printed, except that a value with an equals sign is cut off there.  After a complete message
  its events are out (an address notice, which has no end marker, is still pending until the
  next line), and no bytes are left in the buffer.\<close>

theorem console_round_trip:
  assumes "console_ok msgs" and "concat chunks = concat (map msg_text msgs)"
    and "handler m = DataHandler" "buf m = ''''"
  shows "\<exists>m' evs. run_events on_data m chunks = (m', evs) \<and> buf m' = '''' \<and>
    evs @ pending m' = concat (map msg_events msgs) \<and>
    (pending m' = [] \<or> (\<exists>c as. pending m' = [EvClient ''address'' c as []]))"
  using read_console [OF assms] between_pending by blast

definition demo_msgs :: "console_msg list" where
  "demo_msgs =
     [MLog ''1700000000'' ''W'' ''one, two'',
      MClient ''ESTABLISHED'' 4 [] [(''common_name'', ''abc''), (''username'', ''u1=x'')],
      MAddress 4 [''10.0.0.6'', ''1''],
      MBytecount 4 1500 700]"

definition demo_manager :: vpn_manager where
  "demo_manager = VpnManager_new 1 10001 20001 None None"

theorem console_round_trip_witness:
  "let text = concat (map msg_text demo_msgs) in
   \<exists>m' evs. run_events on_data demo_manager [take 33 text, drop 33 text] = (m', evs) \<and>
     buf m' = '''' \<and>
     evs @ pending m' =
       [EvLog (Some ''warning'') ''one, two'',
        EvClient ''established'' (Some 4) []
          [(''common_name'', Some ''abc''), (''username'', Some ''u1'')],
        EvClient ''address'' (Some 4) [''10.0.0.6'', ''1''] [],
        EvBytecount (Some 4) (Some 1500) (Some 700)]"
proof -
  let ?t = "concat (map msg_text demo_msgs)"
  have ok: "console_ok demo_msgs" by code_simp
  have ev: "concat (map msg_events demo_msgs) =
       [EvLog (Some ''warning'') ''one, two'',
        EvClient ''established'' (Some 4) []
          [(''common_name'', Some ''abc''), (''username'', Some ''u1'')],
        EvClient ''address'' (Some 4) [''10.0.0.6'', ''1''] [],
        EvBytecount (Some 4) (Some 1500) (Some 700)]" by code_simp
  have m: "handler demo_manager = DataHandler" "buf demo_manager = ''''"
    by (simp_all add: demo_manager_def VpnManager_new_def)
  have "concat [take 33 ?t, drop 33 ?t] = ?t" by simp
  from console_round_trip [OF ok this m] show ?thesis unfolding ev Let_def by blast
qed

text \<open>The manager's events do not depend on how the console's bytes are cut into chunks: from every
  state and for every byte stream, two ways to cut it emit the same events and end in the same
  state.\<close>

theorem chunking_irrelevant:
  assumes "concat xs = concat ys" "xs \<noteq> []" "ys \<noteq> []"
  shows "run_events on_data m xs = run_events on_data m ys"
  using assms by (simp add: on_data_chunks)

text \<open>A value of a client's environment that itself contains an equals sign loses everything
  from that sign on.\<close>

lemma env_value_cut:
  assumes "CHR ''='' \<notin> set k" "CHR ''='' \<notin> set v" "k \<noteq> ''__proto__''"
  shows "map_of (env_line (''>CLIENT:ENV,'' @ k @ ''='' @ v @ ''='' @ w) env) k = Some (Some v)"
  using assms by (simp add: env_line_def env_set_def split_char_append)

subsection \<open>Orphans and start-up\<close>

text \<open>The loop of \<open>killOrphan\<close> ends once the clock passes the kill timeout, and a signal that
  is delivered ends it at once.\<close>

lemma orphan_loop_ends:
  "KILL_TIMEOUT \<le> elapsed (k + n) \<Longrightarrow> orphan_loop kill elapsed k err \<noteq> None"
proof (induction n arbitrary: k err)
  case 0
  then show ?case
    by (subst orphan_loop.simps) (auto simp: KILL_TIMEOUT_def TERM_TIMEOUT_def)
next
  case (Suc n)
  then show ?case
    using Suc.IH [of "k + 1"] by (subst orphan_loop.simps) auto
qed

lemma orphan_loop_silent:
  assumes "\<forall>j s. \<not> kill j s" "KILL_TIMEOUT \<le> elapsed (k + n)"
  shows "orphan_loop kill elapsed k False = Some (Inl orphan_timeout)"
proof -
  have kill: "kill = (\<lambda>_ _. False)" using assms(1) by (auto simp: fun_eq_iff)
  from assms(2) show ?thesis unfolding kill
  proof (induction n arbitrary: k)
    case 0
    then show ?case
      by (subst orphan_loop.simps) (auto simp: KILL_TIMEOUT_def TERM_TIMEOUT_def)
  next
    case (Suc n)
    then show ?case
      using Suc.IH [of "k + 1"] by (subst orphan_loop.simps) auto
  qed
qed

lemma orphan_loop_delivered: "orphan_loop kill elapsed k True = Some (Inr ())"
  by (subst orphan_loop.simps) simp

abbreviation attempt_at :: "(nat \<Rightarrow> int \<Rightarrow> attempt) \<Rightarrow> (nat \<Rightarrow> int) \<Rightarrow> nat \<Rightarrow> attempt" where
  "attempt_at attempts since k \<equiv> attempts k (STARTUP_TIMEOUT - since k)"

lemma waitForStart_from:
  "\<forall>j < n. attempt_at attempts since (k + j) = SocketNotReady \<Longrightarrow>
   waitForStart attempts since k = waitForStart attempts since (k + n)"
proof (induction n arbitrary: k)
  case (Suc n)
  have "waitForStart attempts since k = waitForStart attempts since (k + 1)"
    using Suc.prems by (subst waitForStart.simps) force
  moreover have "\<forall>j < n. attempt_at attempts since (k + 1 + j) = SocketNotReady"
    using Suc.prems by auto
  ultimately show ?case using Suc.IH [of "k + 1"] by simp
qed simp

lemma waitForStart_returns:
  "waitForStart attempts since k = Some r \<Longrightarrow> \<exists>j. attempt_at attempts since j \<noteq> SocketNotReady"
  by (erule waitForStart.raw_induct [rotated])
    (auto split: attempt.splits, (metis attempt.distinct)+)

text \<open>The readiness check of a freshly started OpenVPN process is decided by the first
  attempt to reach its management port that is not answered with an error: the check
  succeeds exactly when that attempt connects, throws the timeout exactly when that attempt
  runs into it, and otherwise never returns.\<close>

theorem wait_for_start_decided:
  "waitForStart attempts since 0 =
     (if \<exists>k. attempt_at attempts since k \<noteq> SocketNotReady
      then (case attempt_at attempts since (LEAST k. attempt_at attempts since k \<noteq> SocketNotReady) of
              AttemptTimedOut msg \<Rightarrow> Some (Inl (TimeoutError msg))
            | _ \<Rightarrow> Some (Inr ()))
      else None)"
proof (cases "\<exists>k. attempt_at attempts since k \<noteq> SocketNotReady")
  case True
  define k where "k = (LEAST k. attempt_at attempts since k \<noteq> SocketNotReady)"
  have ready: "attempt_at attempts since k \<noteq> SocketNotReady" unfolding k_def using True by (rule LeastI_ex)
  have "\<forall>j < k. attempt_at attempts since (0 + j) = SocketNotReady"
    unfolding k_def using not_less_Least by force
  then have "waitForStart attempts since 0 = waitForStart attempts since k"
    using waitForStart_from [where n = k and k = 0 and attempts = attempts and since = since] by simp
  also have "\<dots> = (case attempt_at attempts since k of AttemptTimedOut msg \<Rightarrow> Some (Inl (TimeoutError msg))
      | _ \<Rightarrow> Some (Inr ()))"
    using ready by (subst waitForStart.simps) (cases "attempt_at attempts since k"; simp)
  finally show ?thesis using True by (simp add: k_def)
next
  case False
  then show ?thesis
    using waitForStart_returns [where attempts = attempts and since = since and k = 0] by (cases "waitForStart attempts since 0") auto
qed

text \<open>C36. What \<open>start\<close> does about a process left over from an earlier run.  Its wrapper around
  \<open>process.kill\<close> returns true when the signal was delivered, and the loop reads that value as
  the error that says the process is gone.  So if the left-over process is alive and accepts
  the first signal, \<open>start\<close> goes on at once, without waiting for it to exit; and if it is
  already dead, so that no signal can be delivered, \<open>start\<close> waits until the kill timeout and
  then fails, without starting OpenVPN.\<close>

theorem orphan_handling:
  assumes "kill (orphan_pid content) 0 SIGTERM \<or>
      (\<forall>j s. \<not> kill (orphan_pid content) j s) \<and> (\<exists>k. KILL_TIMEOUT \<le> elapsed k)"
  shows "manager_start cfg m (Some content) kill elapsed attempts since =
    (if kill (orphan_pid content) 0 SIGTERM
     then manager_start cfg m None kill elapsed attempts since
     else Some (m, Inl orphan_timeout))"
proof (cases "kill (orphan_pid content) 0 SIGTERM")
  case True
  then show ?thesis
    by (simp add: manager_start_def killOrphan_def orphan_loop_delivered)
next
  case False
  then obtain k where k: "KILL_TIMEOUT \<le> elapsed k" and silent: "\<forall>j s. \<not> kill (orphan_pid content) j s"
    using assms by auto
  have "orphan_loop (kill (orphan_pid content)) elapsed 0 False = Some (Inl orphan_timeout)"
    by (rule orphan_loop_silent [OF silent, of elapsed 0 k]) (simp add: k)
  with False show ?thesis
    by (simp add: manager_start_def killOrphan_def)
qed

definition demo_openvpn_config :: openvpn_config where
  "demo_openvpn_config =
     \<lparr> VPN_API_PORT = 80, VPN_DOWNRATE = None, VPN_UPRATE = None, LEARN_ADDRESS_DEBUG = False,
       VPN_STATUS_FILE_WRITE_INTERVAL_SECONDS = 10 \<rparr>"

theorem orphan_handling_witness:
  "manager_start demo_openvpn_config demo_manager (Some ''4711'') (\<lambda>p j s. False) (\<lambda>k. 100 * int k)
      (\<lambda>k ms. SocketReady) (\<lambda>k. 100 * int k) =
     Some (demo_manager, Inl orphan_timeout)"
  using orphan_handling [of "\<lambda>p j s. False" "''4711''" "\<lambda>k. 100 * int k" demo_openvpn_config demo_manager]
  by (simp add: KILL_TIMEOUT_def TERM_TIMEOUT_def exI [of _ "100 :: nat"])

text \<open>\<open>killOrphan\<close> always returns: whatever the signals do, it ends once the clock has
  passed the kill timeout.\<close>

theorem kill_orphan_terminates:
  assumes "KILL_TIMEOUT \<le> elapsed k"
  shows "\<exists>r. killOrphan pidFile kill elapsed = Some r"
  using orphan_loop_ends [of elapsed 0 k] assms
  by (cases pidFile) (auto simp: killOrphan_def Let_def)

theorem kill_orphan_terminates_witness:
  "\<exists>r. killOrphan (Some ''12'') (\<lambda>p j s. odd j) (\<lambda>k. 100 * int k) = Some r"
  by (rule kill_orphan_terminates [of _ 100]) (simp add: KILL_TIMEOUT_def TERM_TIMEOUT_def)

end
