(* ===== verification/Config.thy ===== *)
theory Config
  imports Complex_Main Openvpn
begin

text \<open>
  \<^verbatim>\<open>src/utils/config.ts\<close>: the settings every other module imports, read from the
  environment when the module is loaded; loading it may throw.

  The accessors come from the npm package \<^verbatim>\<open>@balena/env-parsing\<close>, which is not part of
  the repository: they are the fields of the parameter \<open>env\<close>.  Its documentation says that
  an accessor called with a default returns the default when the variable is not set and one
  called without throws: \<open>env_int\<close> and \<open>env_bool\<close> are the accessors with a default, with
  \<open>None\<close> for a variable that is not set, \<open>env_requiredInt\<close> and \<open>env_requiredBool\<close> those
  without.
  The files and devices that Node's \<open>fs\<close> and \<open>os\<close> modules report are the parameter
  \<open>host\<close>.  \<open>config\<close> extends the part of the settings that the OpenVPN manager reads.
\<close>

subsection \<open>The environment\<close>

record env_parsing =
  env_int :: "string \<Rightarrow> int option result"
  env_requiredInt :: "string \<Rightarrow> int result"
  env_bool :: "string \<Rightarrow> bool option result"
  env_requiredBool :: "string \<Rightarrow> bool result"
  env_str :: "string \<Rightarrow> string option"
  env_required :: "string list \<Rightarrow> string result"
  env_trustProxy :: "string \<Rightarrow> string option result"
  env_checkInt :: "string option \<Rightarrow> int option"
  env_SECONDS :: int
  env_MINUTES :: int

record network_interface =
  nic_address :: string
  nic_internal :: bool
  nic_family :: string

record host_info =
  host_cpu_request :: "string option"
  host_cpus :: nat
  host_networkInterfaces :: "(string \<times> network_interface list option) list"

definition with_default :: "'a \<Rightarrow> 'a option result \<Rightarrow> 'a result" where
  "with_default d r = bind_result r (\<lambda>v. Inr (case v of None \<Rightarrow> d | Some a \<Rightarrow> a))"

subsection \<open>Instance count and interfaces\<close>

definition detected_cores :: "env_parsing \<Rightarrow> host_info \<Rightarrow> int" where
  "detected_cores env host =
     (case host_cpu_request host of
        None \<Rightarrow> int (host_cpus host)
      | Some txt \<Rightarrow>
          (case env_checkInt env (Some txt) of None \<Rightarrow> int (host_cpus host) | Some c \<Rightarrow> c))"

definition getInstanceCount :: "env_parsing \<Rightarrow> host_info \<Rightarrow> string \<Rightarrow> int result" where
  "getInstanceCount env host varName =
     bind_result (env_int env varName) (\<lambda>instanceCount.
       case instanceCount of
         Some n \<Rightarrow> if 0 < n then Inr n else Inr (detected_cores env host)
       | None \<Rightarrow> Inr (detected_cores env host))"

definition getIPv4InterfaceInfo :: "host_info \<Rightarrow> string option \<Rightarrow> network_interface list" where
  "getIPv4InterfaceInfo host iface =
     filter (\<lambda>ip. \<not> nic_internal ip \<and> nic_family ip = ''IPv4'')
       (concat (map (\<lambda>(nic, ips). case ips of None \<Rightarrow> [] | Some l \<Rightarrow> l)
         (filter (\<lambda>(nic, ips). Some nic = iface) (host_networkInterfaces host))))"

subsection \<open>Formats\<close>

text \<open>\<open>/^\d+(kbit|mbit|gbit)$/\<close> and \<open>/^udp[4-6]?$/\<close>.\<close>

definition is_rate :: "string \<Rightarrow> bool" where
  "is_rate s \<longleftrightarrow> takeWhile is_digit s \<noteq> [] \<and>
     dropWhile is_digit s \<in> {''kbit'', ''mbit'', ''gbit''}"

definition is_udp :: "string \<Rightarrow> bool" where
  "is_udp s \<longleftrightarrow> s \<in> {''udp'', ''udp4'', ''udp5'', ''udp6''}"

text \<open>\<open>Math.round\<close> of a quotient, \<open>None\<close> being infinity, and \<open>Math.ceil(Math.log2(n))\<close> of a
  positive integer.\<close>

definition round_quotient :: "int \<Rightarrow> int \<Rightarrow> int option" where
  "round_quotient a n = (if n = 0 then None else Some ((2 * a + n) div (2 * n)))"

fun ceil_log2 :: "nat \<Rightarrow> nat" where
  "ceil_log2 n = (if n \<le> 1 then 0 else Suc (ceil_log2 ((n + 1) div 2)))"

declare ceil_log2.simps [simp del]

subsection \<open>The settings\<close>

record config = openvpn_config +
  TRUST_PROXY :: "string option"
  LEARN_ADDRESS_STATE_DIR :: string
  LEARN_ADDRESS_LOG_DIR :: string
  METRICS_TIMEOUT :: int
  DEFAULT_SIGTERM_TIMEOUT :: int
  MAXIMUM_DRAIN_DELAY :: "int option"
  VPN_INSTANCE_COUNT :: int
  VPN_VERBOSE_LOGS :: bool
  VPN_SERVICE_ADDRESS :: "string option"
  VPN_GATEWAY :: "string option"
  VPN_BASE_IP :: string
  VPN_BASE_MASK :: int
  VPN_INSTANCE_SUBNET_BITMASK :: "int option"
  VPN_BASE_PORT :: int
  VPN_BASE_MANAGEMENT_PORT :: int
  VPN_BYTECOUNT_INTERVAL :: int
  BALENA_API_INTERNAL_HOST :: string
  VPN_SERVICE_API_KEY :: string
  VPN_CONNECT_PROXY_PORT :: int
  VPN_FORWARD_PROXY_PORT :: int
  VPN_AUTH_CACHE_TIMEOUT :: int
  API_DEVICE_STATE_POST_BATCH_SIZE :: int
  DELAY_ON_AUTH_FAIL :: int

definition check_rates :: "string option \<Rightarrow> string option \<Rightarrow> unit result" where
  "check_rates down up =
     (if truthy down \<and> \<not> is_rate (the down)
      then Inl (JsError ''VPN_DOWNRATE must be in format: <number>(kbit|mbit|gbit)'')
      else if truthy up \<and> \<not> is_rate (the up)
      then Inl (JsError ''VPN_UPRATE must be in format: <number>(kbit|mbit|gbit)'')
      else if (down \<noteq> None) \<noteq> (up \<noteq> None)
      then Inl (JsError ''You must either specify both or neither of VPN_UPRATE and VPN_DOWNRATE, specifying just one is not supported'')
      else Inr ())"

definition check_proto :: "string option \<Rightarrow> int \<Rightarrow> unit result" where
  "check_proto proto count =
     (if truthy proto \<and> is_udp (the proto) \<and> count > 1
      then Inl (JsError (''Can not set VPN_INSTANCE_COUNT to '' @ show_int count @
                         '' if VPN_OPENVPN_PROTO is '' @ the proto @ ''.''))
      else Inr ())"

definition base_subnet :: "env_parsing \<Rightarrow> string \<Rightarrow> (string \<times> int) result" where
  "base_subnet env txt =
     (let parts = split_char CHR ''/'' txt;
          netMask = (case tl parts of [] \<Rightarrow> None | m # _ \<Rightarrow> Some m)
      in case env_checkInt env netMask of
           None \<Rightarrow> Inl (JsError ''Invalid VPN_BASE_SUBNET'')
         | Some m \<Rightarrow> Inr (hd parts, m))"

text \<open>The instance subnet's prefix length, \<open>None\<close> being \<open>NaN\<close>: the logarithm of a negative count
  is \<open>NaN\<close>, which \<open>Math.max\<close> returns, and that of zero is negative infinity, which it drops.\<close>

definition instance_bitmask :: "int option \<Rightarrow> int \<Rightarrow> int \<Rightarrow> int option" where
  "instance_bitmask var base count =
     (case var of
        Some m \<Rightarrow> Some (max 16 m)
      | None \<Rightarrow>
          if count < 0 then None
          else if count = 0 then Some 16
          else Some (max 16 (base + int (ceil_log2 (nat count)))))"

definition api_internal_host :: "env_parsing \<Rightarrow> string \<Rightarrow> string" where
  "api_internal_host env apiHost =
     (if Some apiHost = env_str env ''BALENA_API_INTERNAL_HOST''
      then ''http://'' @ apiHost else ''https://'' @ apiHost)"

definition load_config :: "env_parsing \<Rightarrow> host_info \<Rightarrow> config result" where
  "load_config env host =
     bind_result (env_trustProxy env ''TRUST_PROXY'') (\<lambda>trust.
     bind_result (env_requiredInt env ''VPN_API_PORT'') (\<lambda>apiPort.
     bind_result (with_default 10 (env_int env ''VPN_STATUS_FILE_WRITE_INTERVAL_SECONDS'')) (\<lambda>status.
     let down = env_str env ''VPN_DOWNRATE''; up = env_str env ''VPN_UPRATE'' in
     bind_result (check_rates down up) (\<lambda>_.
     bind_result (with_default False (env_bool env ''LEARN_ADDRESS_DEBUG'')) (\<lambda>debug.
     bind_result (with_default (20 * env_SECONDS env) (env_int env ''METRICS_TIMEOUT'')) (\<lambda>mt.
     bind_result (env_requiredInt env ''DEFAULT_SIGTERM_TIMEOUT'') (\<lambda>st.
     bind_result (with_default 500 (env_int env ''MINIMUM_DRAIN_RATE_PER_MINUTE'')) (\<lambda>rate.
     bind_result (getInstanceCount env host ''VPN_INSTANCE_COUNT'') (\<lambda>count.
     bind_result (check_proto (env_str env ''VPN_OPENVPN_PROTO'') count) (\<lambda>_.
     bind_result (env_requiredBool env ''DEFAULT_VERBOSE_LOGS'') (\<lambda>verbose.
     bind_result (env_required env [''VPN_BASE_SUBNET'']) (\<lambda>subnetTxt.
     bind_result (base_subnet env subnetTxt) (\<lambda>(baseIp, baseMask).
     bind_result (env_int env ''VPN_INSTANCE_SUBNET_BITMASK'') (\<lambda>bm.
     bind_result (env_requiredInt env ''VPN_BASE_PORT'') (\<lambda>basePort.
     bind_result (env_requiredInt env ''VPN_BASE_MANAGEMENT_PORT'') (\<lambda>mgtPort.
     bind_result (with_default 0 (env_int env ''VPN_BYTECOUNT_INTERVAL'')) (\<lambda>bci.
     bind_result (env_required env [''BALENA_API_INTERNAL_HOST'', ''BALENA_API_HOST'']) (\<lambda>apiHost.
     bind_result (env_required env [''VPN_SERVICE_API_KEY'']) (\<lambda>key.
     bind_result (env_requiredInt env ''VPN_CONNECT_PROXY_PORT'') (\<lambda>cport.
     bind_result (env_requiredInt env ''VPN_FORWARD_PROXY_PORT'') (\<lambda>fport.
     bind_result (with_default (env_MINUTES env) (env_int env ''VPN_AUTH_CACHE_TIMEOUT'')) (\<lambda>act.
     bind_result (with_default 8000 (env_int env ''API_DEVICE_STATE_POST_BATCH_SIZE'')) (\<lambda>batch.
     bind_result (with_default (10 * env_SECONDS env) (env_int env ''DELAY_ON_AUTH_FAIL'')) (\<lambda>delay.
     Inr \<lparr> VPN_API_PORT = apiPort, VPN_DOWNRATE = down, VPN_UPRATE = up,
       LEARN_ADDRESS_DEBUG = debug, VPN_STATUS_FILE_WRITE_INTERVAL_SECONDS = status,
       TRUST_PROXY = trust,
       LEARN_ADDRESS_STATE_DIR =
         (case env_str env ''LEARN_ADDRESS_STATE_DIR'' of None \<Rightarrow> ''/var/lib/openvpn/tc-state'' | Some d \<Rightarrow> d),
       LEARN_ADDRESS_LOG_DIR =
         (case env_str env ''LEARN_ADDRESS_LOG_DIR'' of None \<Rightarrow> ''/var/log/openvpn'' | Some d \<Rightarrow> d),
       METRICS_TIMEOUT = mt,
       DEFAULT_SIGTERM_TIMEOUT = st * env_SECONDS env,
       MAXIMUM_DRAIN_DELAY = round_quotient (env_MINUTES env) rate,
       VPN_INSTANCE_COUNT = count,
       VPN_VERBOSE_LOGS = verbose,
       VPN_SERVICE_ADDRESS =
         (case getIPv4InterfaceInfo host (env_str env ''VPN_SERVICE_REGISTER_INTERFACE'') of
            [] \<Rightarrow> None | ip # _ \<Rightarrow> Some (nic_address ip)),
       VPN_GATEWAY = env_str env ''VPN_GATEWAY'',
       VPN_BASE_IP = baseIp, VPN_BASE_MASK = baseMask,
       VPN_INSTANCE_SUBNET_BITMASK = instance_bitmask bm baseMask count,
       VPN_BASE_PORT = basePort, VPN_BASE_MANAGEMENT_PORT = mgtPort,
       VPN_BYTECOUNT_INTERVAL = bci,
       BALENA_API_INTERNAL_HOST = api_internal_host env apiHost,
       VPN_SERVICE_API_KEY = key,
       VPN_CONNECT_PROXY_PORT = cport, VPN_FORWARD_PROXY_PORT = fport,
       VPN_AUTH_CACHE_TIMEOUT = act,
       API_DEVICE_STATE_POST_BATCH_SIZE = batch,
       DELAY_ON_AUTH_FAIL = delay \<rparr>))))))))))))))))))))))))"

subsection \<open>The logarithm\<close>

lemma ceil_log2_le: "n \<le> 2 ^ ceil_log2 n"
proof (induction n rule: ceil_log2.induct)
  case (1 n)
  show ?case
  proof (cases "n \<le> 1")
    case True
    then show ?thesis by (simp add: ceil_log2.simps)
  next
    case False
    with 1 have "(n + 1) div 2 \<le> 2 ^ ceil_log2 ((n + 1) div 2)" by simp
    then have "n \<le> 2 * 2 ^ ceil_log2 ((n + 1) div 2)" by linarith
    then show ?thesis using False by (subst ceil_log2.simps) simp
  qed
qed

lemma even_less_half: "(p::nat) < 2 * ((n + 1) div 2) \<Longrightarrow> even p \<Longrightarrow> p < n"
  by presburger

lemma ceil_log2_less: "1 < n \<Longrightarrow> 2 ^ ceil_log2 n < 2 * n"
proof (induction n rule: ceil_log2.induct)
  case (1 n)
  have unfold: "ceil_log2 n = Suc (ceil_log2 ((n + 1) div 2))"
    using 1(2) by (subst ceil_log2.simps) simp
  show ?case
  proof (cases "n = 2")
    case True
    then show ?thesis using unfold by (simp add: ceil_log2.simps)
  next
    case False
    then have "1 < (n + 1) div 2" using 1(2) by linarith
    with 1 have "2 ^ ceil_log2 ((n + 1) div 2) < 2 * ((n + 1) div 2)" by simp
    moreover have "even ((2::nat) ^ ceil_log2 ((n + 1) div 2))"
      using \<open>1 < (n + 1) div 2\<close> by (subst ceil_log2.simps) simp
    ultimately have "2 ^ ceil_log2 ((n + 1) div 2) < n"
      by (rule even_less_half)
    then show ?thesis unfolding unfold by simp
  qed
qed

text \<open>\<open>ceil_log2\<close> is the ceiling of the binary logarithm.\<close>

lemma ceil_log2_log:
  assumes "1 \<le> n"
  shows "int (ceil_log2 n) = \<lceil>log 2 (real n)\<rceil>"
proof (cases "n = 1")
  case True
  then show ?thesis by (simp add: ceil_log2.simps)
next
  case False
  with assms have n: "1 < n" by simp
  have "real n \<le> 2 ^ ceil_log2 n" using ceil_log2_le [of n] by (metis of_nat_le_iff of_nat_numeral of_nat_power)
  then have le: "log 2 (real n) \<le> real (ceil_log2 n)"
    using n by (simp add: log_le_iff powr_realpow)
  have "(2::real) ^ ceil_log2 n < 2 * real n"
    using ceil_log2_less [OF n] by (metis of_nat_less_iff of_nat_mult of_nat_numeral of_nat_power)
  then have "real (ceil_log2 n) < log 2 (2 * real n)"
    using n by (simp add: less_log_iff powr_realpow)
  then have "real (ceil_log2 n) - 1 < log 2 (real n)"
    using n by (simp add: log_mult)
  with le show ?thesis by (intro ceiling_unique [symmetric]) auto
qed

subsection \<open>Properties\<close>

lemma case_prod_InrE:
  "(case p of (a, b) \<Rightarrow> f a b) = Inr c \<Longrightarrow> (\<And>a b. p = (a, b) \<Longrightarrow> f a b = Inr c \<Longrightarrow> P) \<Longrightarrow> P"
  by (cases p) auto

lemma check_rates_ok:
  "check_rates down up = Inr u \<longleftrightarrow>
     (down = None \<longleftrightarrow> up = None) \<and> (truthy down \<longrightarrow> is_rate (the down)) \<and> (truthy up \<longrightarrow> is_rate (the up))"
  by (auto simp: check_rates_def)

lemma check_proto_ok:
  "check_proto proto count = Inr u \<longleftrightarrow> \<not> (truthy proto \<and> is_udp (the proto) \<and> count > 1)"
  by (auto simp: check_proto_def)

text \<open>What a successful load went through.\<close>

lemma load_config_Inr:
  assumes "load_config env host = Inr c"
  shows "check_rates (VPN_DOWNRATE c) (VPN_UPRATE c) = Inr ()"
    and "check_proto (env_str env ''VPN_OPENVPN_PROTO'') (VPN_INSTANCE_COUNT c) = Inr ()"
    and "getInstanceCount env host ''VPN_INSTANCE_COUNT'' = Inr (VPN_INSTANCE_COUNT c)"
    and "\<exists>bm. env_int env ''VPN_INSTANCE_SUBNET_BITMASK'' = Inr bm \<and>
      VPN_INSTANCE_SUBNET_BITMASK c = instance_bitmask bm (VPN_BASE_MASK c) (VPN_INSTANCE_COUNT c)"
  using assms unfolding load_config_def Let_def
  by (elim bind_result_InrE case_prod_InrE; clarsimp)+

lemma truncate_rates:
  "VPN_DOWNRATE (openvpn_config.truncate c) = VPN_DOWNRATE c"
  "VPN_UPRATE (openvpn_config.truncate c) = VPN_UPRATE c"
  by (simp_all add: openvpn_config.defs)

lemma instance_bitmask_ge: "instance_bitmask v base count = Some b \<Longrightarrow> 16 \<le> b"
  by (auto simp: instance_bitmask_def split: option.splits if_splits)

text \<open>C30. A configuration that loads is consistent: the two bandwidth rates are either both set
  or both unset and, unless empty, have the documented format; an OpenVPN server over UDP has
  at most one instance; and an instance's subnet is never larger than a /16.  In particular
  the traffic-shaping plugin is only ever given well-formed rates.\<close>

theorem loaded_config_consistent:
  assumes "load_config env host = Inr c"
  shows "(VPN_DOWNRATE c = None \<longleftrightarrow> VPN_UPRATE c = None) \<and>
    (throttle_args (openvpn_config.truncate c) m \<noteq> [] \<longrightarrow>
       is_rate (the (VPN_DOWNRATE c)) \<and> is_rate (the (VPN_UPRATE c))) \<and>
    (truthy (env_str env ''VPN_OPENVPN_PROTO'') \<and> is_udp (the (env_str env ''VPN_OPENVPN_PROTO''))
       \<longrightarrow> VPN_INSTANCE_COUNT c \<le> 1) \<and>
    (\<forall>b. VPN_INSTANCE_SUBNET_BITMASK c = Some b \<longrightarrow> 16 \<le> b)"
proof (intro conjI)
  have rates: "(VPN_DOWNRATE c = None \<longleftrightarrow> VPN_UPRATE c = None) \<and>
      (truthy (VPN_DOWNRATE c) \<longrightarrow> is_rate (the (VPN_DOWNRATE c))) \<and>
      (truthy (VPN_UPRATE c) \<longrightarrow> is_rate (the (VPN_UPRATE c)))"
    using load_config_Inr(1) [OF assms] unfolding check_rates_ok .
  then show "VPN_DOWNRATE c = None \<longleftrightarrow> VPN_UPRATE c = None" by blast
  show "throttle_args (openvpn_config.truncate c) m \<noteq> [] \<longrightarrow>
      is_rate (the (VPN_DOWNRATE c)) \<and> is_rate (the (VPN_UPRATE c))"
    using rates by (simp add: throttle_args_def truncate_rates)
  show "truthy (env_str env ''VPN_OPENVPN_PROTO'') \<and>
      is_udp (the (env_str env ''VPN_OPENVPN_PROTO'')) \<longrightarrow> VPN_INSTANCE_COUNT c \<le> 1"
    using load_config_Inr(2) [OF assms] unfolding check_proto_ok by linarith
  show "\<forall>b. VPN_INSTANCE_SUBNET_BITMASK c = Some b \<longrightarrow> 16 \<le> b"
    using load_config_Inr(4) [OF assms] by (metis instance_bitmask_ge)
qed

text \<open>An environment that loads.\<close>

definition demo_env :: env_parsing where
  "demo_env =
     \<lparr> env_int = (\<lambda>name. Inr (if name = ''VPN_INSTANCE_COUNT'' then Some 6 else None)),
       env_requiredInt = (\<lambda>name. Inr (if name = ''VPN_BASE_PORT'' then 10000 else 3128)),
       env_bool = (\<lambda>_. Inr None),
       env_requiredBool = (\<lambda>_. Inr False),
       env_str = (\<lambda>name. if name = ''VPN_DOWNRATE'' then Some ''10mbit''
                         else if name = ''VPN_UPRATE'' then Some ''512kbit'' else None),
       env_required = (\<lambda>names. Inr (if names = [''VPN_BASE_SUBNET''] then ''100.64.0.0/10'' else ''x'')),
       env_trustProxy = (\<lambda>_. Inr None),
       env_checkInt = (\<lambda>s. case s of None \<Rightarrow> None | Some t \<Rightarrow> parseInt t),
       env_SECONDS = 1000, env_MINUTES = 60000 \<rparr>"

definition demo_host :: host_info where
  "demo_host = \<lparr> host_cpu_request = None, host_cpus = 4, host_networkInterfaces = [] \<rparr>"

definition demo_loaded :: config where
  "demo_loaded = (case load_config demo_env demo_host of Inr c \<Rightarrow> c)"

lemma demo_loads: "load_config demo_env demo_host = Inr demo_loaded"
  by code_simp

theorem loaded_config_consistent_witness:
  "throttle_args (openvpn_config.truncate demo_loaded) demo_manager \<noteq> [] \<and>
   is_rate (the (VPN_DOWNRATE demo_loaded)) \<and> is_rate (the (VPN_UPRATE demo_loaded))"
proof -
  have "throttle_args (openvpn_config.truncate demo_loaded) demo_manager \<noteq> []"
    by code_simp
  with loaded_config_consistent [OF demo_loads, of demo_manager] show ?thesis by blast
qed

lemma ceil_log2_iff: "ceil_log2 n \<le> k \<longleftrightarrow> n \<le> 2 ^ k"
proof
  assume "ceil_log2 n \<le> k"
  then have "(2::nat) ^ ceil_log2 n \<le> 2 ^ k" by (simp add: power_increasing)
  with ceil_log2_le [of n] show "n \<le> 2 ^ k" by (rule order_trans)
next
  assume n: "n \<le> 2 ^ k"
  show "ceil_log2 n \<le> k"
  proof (cases "1 < n")
    case True
    then have "2 ^ ceil_log2 n < 2 * n" by (rule ceil_log2_less)
    also have "\<dots> \<le> 2 ^ Suc k" using n by simp
    finally have "ceil_log2 n < Suc k" by (rule power_less_imp_less_exp [rotated]) simp
    then show ?thesis by simp
  next
    case False
    then show ?thesis by (simp add: ceil_log2.simps [of n])
  qed
qed

lemma default_bitmask_least:
  assumes "load_config env host = Inr c"
    and "env_int env ''VPN_INSTANCE_SUBNET_BITMASK'' = Inr None"
    and "1 \<le> VPN_INSTANCE_COUNT c" and "0 \<le> VPN_BASE_MASK c"
  shows "\<exists>b. VPN_INSTANCE_SUBNET_BITMASK c = Some b \<and>
    (\<forall>x. b \<le> x \<longleftrightarrow> 16 \<le> x \<and> VPN_BASE_MASK c \<le> x \<and> VPN_INSTANCE_COUNT c \<le> 2 ^ nat (x - VPN_BASE_MASK c))"
proof -
  let ?n = "nat (VPN_INSTANCE_COUNT c)" and ?base = "VPN_BASE_MASK c"
  let ?k = "ceil_log2 ?n"
  have "VPN_INSTANCE_SUBNET_BITMASK c = Some (max 16 (?base + int ?k))"
    using load_config_Inr(4) [OF assms(1)] assms(2,3) by (auto simp: instance_bitmask_def)
  moreover have "max 16 (?base + int ?k) \<le> x \<longleftrightarrow>
      16 \<le> x \<and> ?base \<le> x \<and> VPN_INSTANCE_COUNT c \<le> 2 ^ nat (x - ?base)" for x
  proof (cases "?base \<le> x")
    case True
    have "VPN_INSTANCE_COUNT c \<le> 2 ^ nat (x - ?base) \<longleftrightarrow> ?n \<le> 2 ^ nat (x - ?base)" by (simp add: nat_le_iff)
    also have "\<dots> \<longleftrightarrow> ?k \<le> nat (x - ?base)" by (rule ceil_log2_iff [symmetric])
    finally show ?thesis using True by auto
  qed auto
  ultimately show ?thesis by blast
qed

lemma default_bitmask_bounds:
  assumes "load_config env host = Inr c"
    and "env_int env ''VPN_INSTANCE_SUBNET_BITMASK'' = Inr None"
    and "1 \<le> VPN_INSTANCE_COUNT c" and "0 \<le> VPN_BASE_MASK c"
  shows "\<exists>b. VPN_INSTANCE_SUBNET_BITMASK c = Some b \<and> VPN_BASE_MASK c \<le> b \<and>
    VPN_INSTANCE_COUNT c \<le> 2 ^ nat (b - VPN_BASE_MASK c)"
  using default_bitmask_least [OF assms] by blast

text \<open>C31. The default instance subnet is the largest that gives every instance a block.  With
  \<open>VPN_INSTANCE_SUBNET_BITMASK\<close> not set and at least one instance, the default prefix length is the
  least number that is at least 16, at least that of the base network, and long enough for the
  base network to split into as many subnets as there are instances.\<close>

theorem default_bitmask_fits:
  assumes "load_config env host = Inr c"
    and "env_int env ''VPN_INSTANCE_SUBNET_BITMASK'' = Inr None"
    and "1 \<le> VPN_INSTANCE_COUNT c" and "0 \<le> VPN_BASE_MASK c"
  shows "\<exists>b. VPN_INSTANCE_SUBNET_BITMASK c = Some b \<and>
    (\<forall>x. b \<le> x \<longleftrightarrow> 16 \<le> x \<and> VPN_BASE_MASK c \<le> x \<and> VPN_INSTANCE_COUNT c \<le> 2 ^ nat (x - VPN_BASE_MASK c))"
  using default_bitmask_least [OF assms] .

text \<open>Six instances in the network of the demonstration, where the bound of 16 decides.\<close>

theorem default_bitmask_fits_witness:
  "VPN_INSTANCE_SUBNET_BITMASK demo_loaded = Some 16 \<and> 6 \<le> (2::int) ^ nat (16 - 10)"
proof -
  have facts: "VPN_INSTANCE_COUNT demo_loaded = 6" "VPN_BASE_MASK demo_loaded = 10"
      "VPN_INSTANCE_SUBNET_BITMASK demo_loaded = Some 16"
      "env_int demo_env ''VPN_INSTANCE_SUBNET_BITMASK'' = Inr None"
    by code_simp+
  have "\<exists>b. VPN_INSTANCE_SUBNET_BITMASK demo_loaded = Some b \<and>
      (\<forall>x. b \<le> x \<longleftrightarrow> 16 \<le> x \<and> VPN_BASE_MASK demo_loaded \<le> x \<and>
         VPN_INSTANCE_COUNT demo_loaded \<le> 2 ^ nat (x - VPN_BASE_MASK demo_loaded))"
    using facts by (intro default_bitmask_fits [OF demo_loads]) simp_all
  then show ?thesis using facts(1-3) by (auto dest: spec [of _ 16])
qed

end
