(* ===== verification/Proxy_Worker.thy ===== *)
theory Proxy_Worker
  imports Metrics_Names Device
begin

text \<open>
  \<^verbatim>\<open>src/proxy-worker.ts\<close>: the HTTP CONNECT proxy through which users reach devices.
  \<open>tunnelToDevice\<close> is the middleware that authorises a request and rewrites its target,
  \<open>connect\<close> opens the connection, locally or through the VPN instance the device is on, and
  \<open>forwardRequest\<close> is the client of that other instance's proxy.

  The packages \<^verbatim>\<open>node-tunnel\<close> and \<^verbatim>\<open>dns\<close> and the sockets are the environment: the answers
  of name lookups, of \<open>super.connect\<close> and the events of the forwarding socket are arguments.
  Tracing spans are not modelled.
\<close>

subsection \<open>Requests and configuration\<close>

record tunnel_request =
  req_url :: "string option"
  req_auth_password :: "string option"
  req_forwarded :: "string option"

record proxy_config =
  proxy_guest_key :: "string option"
  proxy_sentry_dsn :: "string option"
  proxy_service_key :: string
  proxy_serviceId :: int
  proxy_instanceId :: int

definition http_reply :: "string \<Rightarrow> string" where
  "http_reply s = ''HTTP/1.0 '' @ s @ [CR, LF, CR, LF]"

definition HTTP_500 :: string where
  "HTTP_500 = http_reply ''500 Internal Server Error''"

definition is_hex :: "char \<Rightarrow> bool" where
  "is_hex c \<longleftrightarrow> is_digit c \<or>
     97 \<le> (of_char c :: nat) \<and> (of_char c :: nat) \<le> 102 \<or>
     65 \<le> (of_char c :: nat) \<and> (of_char c :: nat) \<le> 70"

subsection \<open>Parsing the target\<close>

text \<open>\<open>/^([a-fA-F0-9]+)\.(balena|resin|vpn)(?::([0-9]+))?$/\<close>: the three groups of a match.  A hex
  digit is never a dot and no top-level domain is the beginning of another, so there is at
  most one match.\<close>

definition tlds :: "string list" where
  "tlds = [''balena'', ''resin'', ''vpn'']"

definition match_port :: "string \<Rightarrow> string option option" where
  "match_port r =
     (case r of
        [] \<Rightarrow> Some None
      | c # ds \<Rightarrow> if c = CHR '':'' \<and> ds \<noteq> [] \<and> list_all is_digit ds then Some (Some ds) else None)"

definition match_url :: "string \<Rightarrow> (string \<times> string \<times> string option) option" where
  "match_url url =
     (let uuid = takeWhile is_hex url
      in case dropWhile is_hex url of
           [] \<Rightarrow> None
         | c # r \<Rightarrow>
             if uuid = [] \<or> c \<noteq> CHR ''.'' then None
             else case find (starts_with r) tlds of
                    None \<Rightarrow> None
                  | Some tld \<Rightarrow> map_option (\<lambda>p. (uuid, tld, p)) (match_port (drop (length tld) r)))"

text \<open>\<open>parseRequest\<close>.  The port group is a non-empty run of digits, so \<open>parseInt\<close> succeeds.\<close>

definition parseRequest :: "tunnel_request \<Rightarrow> (string \<times> int \<times> string option) result" where
  "parseRequest req =
     (case req_url req of
        None \<Rightarrow> Inl BadRequestError
      | Some url \<Rightarrow>
          (case match_url url of
             None \<Rightarrow> Inl (InvalidHostnameError (''invalid hostname: '' @ url))
           | Some (uuid, tld, port) \<Rightarrow>
               let port' = (case port of None \<Rightarrow> ''80'' | Some p \<Rightarrow> p)
               in Inr (uuid, the (parseInt port'), req_auth_password req)))"

subsection \<open>The middleware\<close>

record middleware_out =
  mw_ends :: "string list"
  mw_url :: "string option"
  mw_next :: bool
  mw_captures :: "capture list"

text \<open>The body of the \<open>try\<close> block: what it wrote to the client and how it ended; a normal end
  carries the rewritten target.\<close>

definition tunnel_try ::
  "proxy_config \<Rightarrow> balena_api \<Rightarrow> tunnel_request \<Rightarrow> string list \<times> capture list \<times> string result" where
  "tunnel_try cfg api req =
     (case parseRequest req of
        Inl e \<Rightarrow> ([], [], Inl e)
      | Inr (uuid, port, auth) \<Rightarrow>
          (case canAccessDevice api (proxy_guest_key cfg) uuid port auth of
             None \<Rightarrow> ([http_reply ''407 Proxy Authorization Required''], [],
                      Inl (HandledTunnelingError (''device not accessible: '' @ uuid)))
           | Some deviceId \<Rightarrow>
               if deviceId = 0
               then ([http_reply ''407 Proxy Authorization Required''], [],
                     Inl (HandledTunnelingError (''device not accessible: '' @ uuid)))
               else
                 (case isDeviceConnectedToVpn api (proxy_guest_key cfg) (proxy_sentry_dsn cfg)
                         deviceId (Some (proxy_service_key cfg)) of
                    (Inl e, caps) \<Rightarrow> ([], caps, Inl e)
                  | (Inr False, caps) \<Rightarrow>
                      ([http_reply ''503 Service Unavailable''], caps,
                       Inl (HandledTunnelingError (''device not available: '' @ uuid)))
                  | (Inr True, caps) \<Rightarrow> ([], caps, Inr (uuid @ ''.vpn:'' @ show_int port)))))"

text \<open>What the \<open>catch\<close> block does about an error: the response it adds and what it captures.\<close>

definition tunnel_catch :: "proxy_config \<Rightarrow> js_error \<Rightarrow> string list \<times> capture list" where
  "tunnel_catch cfg err =
     (case err of
        APIError _ \<Rightarrow> ([HTTP_500], [])
      | BadRequestError \<Rightarrow> ([http_reply ''400 Bad Request''], [])
      | HandledTunnelingError _ \<Rightarrow> ([], [])
      | InvalidHostnameError _ \<Rightarrow> ([http_reply ''403 Forbidden''], [])
      | _ \<Rightarrow> ([HTTP_500],
               captureException (proxy_sentry_dsn cfg) (error_message err) ''proxy-tunnel-error'' []))"

definition tunnelToDevice :: "proxy_config \<Rightarrow> balena_api \<Rightarrow> tunnel_request \<Rightarrow> middleware_out" where
  "tunnelToDevice cfg api req =
     (case tunnel_try cfg api req of
        (ends, caps, Inr url) \<Rightarrow>
          \<lparr> mw_ends = ends, mw_url = Some url, mw_next = True, mw_captures = caps \<rparr>
      | (ends, caps, Inl err) \<Rightarrow>
          \<lparr> mw_ends = ends @ fst (tunnel_catch cfg err), mw_url = req_url req, mw_next = False,
            mw_captures = caps @ snd (tunnel_catch cfg err) \<rparr>)"

subsection \<open>Forwarding to another instance\<close>

text \<open>\<open>Buffer.toString('base64')\<close>.\<close>

definition base64_alphabet :: string where
  "base64_alphabet = ''ABCDEFGHIJKLMNOPQRSTUVWXYZabcdefghijklmnopqrstuvwxyz0123456789+/''"

definition base64_digit :: "nat \<Rightarrow> char" where
  "base64_digit n = base64_alphabet ! (n mod 64)"

fun base64_encode :: "string \<Rightarrow> string" where
  "base64_encode [] = []"
| "base64_encode [a] =
     (let n = of_char a * 16
      in [base64_digit (n div 64), base64_digit n, CHR ''='', CHR ''=''])"
| "base64_encode [a, b] =
     (let n = (of_char a * 256 + of_char b) * 4
      in [base64_digit (n div 4096), base64_digit (n div 64), base64_digit n, CHR ''=''])"
| "base64_encode (a # b # c # s) =
     (let n = (of_char a * 256 + of_char b) * 256 + of_char c
      in base64_digit (n div 262144) # base64_digit (n div 4096) # base64_digit (n div 64) #
         base64_digit n # base64_encode s)"

definition forward_request_text :: "string \<Rightarrow> int \<Rightarrow> string option \<Rightarrow> string" where
  "forward_request_text uuid port proxyAuth =
     ''CONNECT '' @ uuid @ ''.balena:'' @ show_int port @ '' HTTP/1.0'' @ [CR, LF] @
     (case proxyAuth of
        None \<Rightarrow> ''''
      | Some a \<Rightarrow> ''Proxy-Authorization: Basic '' @ base64_encode a @ [CR, LF]) @
     [CR, LF]"

datatype forward_event = FwdData string | FwdEnd | FwdError string

text \<open>The state of a forwarding socket: the response so far, how the promise settled, whether the three
  listeners are still registered, and what was captured.\<close>

record forward_state =
  tunnelProxyResponse :: string
  settled :: "unit result option"
  listening :: bool
  fwd_captures :: "capture list"

text \<open>A promise settles once.\<close>

definition settle :: "unit result \<Rightarrow> forward_state \<Rightarrow> forward_state" where
  "settle r st = (if settled st = None then st\<lparr>settled := Some r\<rparr> else st)"

text \<open>The part before the first \<open>\r\n\<close>: \<open>split('\r\n')[0]\<close>.\<close>

fun first_line :: "string \<Rightarrow> string" where
  "first_line [] = []"
| "first_line [c] = [c]"
| "first_line (c # d # s) = (if c = CR \<and> d = LF then [] else c # first_line (d # s))"

definition http_status :: "string \<Rightarrow> int option" where
  "http_status line =
     (case split_char CHR '' '' line of (_ # code # _) \<Rightarrow> parseInt code | _ \<Rightarrow> None)"

definition could_not_connect :: "string \<Rightarrow> int \<Rightarrow> string \<Rightarrow> js_error" where
  "could_not_connect uuid port why =
     RemoteTunnellingError (''could not connect to '' @ uuid @ '':'' @ show_int port @ '': '' @ why)"

text \<open>The listeners of the forwarding socket.  They are removed when the response is complete; an end or
  an error rejects the promise but leaves them in place.\<close>

definition forward_step ::
  "string option \<Rightarrow> string \<Rightarrow> int \<Rightarrow> forward_state \<Rightarrow> forward_event \<Rightarrow> forward_state" where
  "forward_step dsn uuid port st ev =
     (if \<not> listening st then st
      else case ev of
        FwdEnd \<Rightarrow>
          settle (Inl (could_not_connect uuid port ''tunneling socket closed prematurely'')) st
      | FwdError msg \<Rightarrow>
          settle (Inl (RemoteTunnellingError
                (''could not connect to vpn tunnel'' @ (if msg = '''' then '''' else '': '' @ msg))))
            (st\<lparr>fwd_captures := fwd_captures st @ captureException dsn msg ''proxy-forward-error'' []\<rparr>)
      | FwdData chunk \<Rightarrow>
          let resp = tunnelProxyResponse st @ chunk;
              st' = st\<lparr>tunnelProxyResponse := resp\<rparr>
          in if \<not> str_includes resp [CR, LF, CR, LF] then st'
             else let line = first_line resp
                  in settle (if http_status line \<noteq> Some 200 then Inl (could_not_connect uuid port line)
                             else Inr ())
                       (st'\<lparr>listening := False\<rparr>))"

definition forward_init :: forward_state where
  "forward_init =
     \<lparr> tunnelProxyResponse = '''', settled = None, listening = True, fwd_captures = [] \<rparr>"

text \<open>\<open>forwardRequest\<close>: how the promise settled, if it did, and what was captured.\<close>

definition forwardRequest ::
  "string option \<Rightarrow> string \<Rightarrow> int \<Rightarrow> forward_event list \<Rightarrow> unit result option \<times> capture list" where
  "forwardRequest dsn uuid port evs =
     (let st = foldl (forward_step dsn uuid port) forward_init evs in (settled st, fwd_captures st))"

subsection \<open>Connecting\<close>

text \<open>What the surroundings of one call of \<open>connect\<close> do: the two name lookups, the local connection
  attempt and the forwarding socket.\<close>

record tunnel_world =
  dns_first :: "string \<Rightarrow> bool"
  dns_retry :: "string \<Rightarrow> bool"
  local_socket :: "string + unit"
  remote_events :: "forward_event list"

text \<open>A local socket carries the host and the port it was opened to.\<close>

datatype tunnel_socket = LocalSocket string int | RemoteSocket string

record connect_out =
  co_ends :: "string list"
  co_forwarded :: "string option"
  co_sent :: "(string \<times> string) option"
  co_metrics :: "metric_call list"
  co_captures :: "capture list"
  co_result :: "tunnel_socket result option"

definition forward_signature :: "int \<Rightarrow> string" where
  "forward_signature serviceId = ''By=open-balena-vpn('' @ show_int serviceId @ '')''"

text \<open>\<open>deviceIsLocal\<close>, over the lookup of a host name.\<close>

definition deviceIsLocal :: "(string \<Rightarrow> bool) \<Rightarrow> string \<Rightarrow> bool" where
  "deviceIsLocal lookup uuid = lookup (uuid @ ''.vpn'')"

definition localConnect :: "int \<Rightarrow> string \<Rightarrow> tunnel_world \<Rightarrow> connect_out \<Rightarrow> connect_out" where
  "localConnect port host w out =
     (case local_socket w of
        Inl msg \<Rightarrow> out\<lparr>co_result := Some (Inl (JsError msg))\<rparr>
      | Inr _ \<Rightarrow> out\<lparr>co_metrics := [MInc ActiveTunnels (Some 1), MInc TotalTunnels (Some 1)],
                     co_result := Some (Inr (LocalSocket host port))\<rparr>)"

text \<open>The \<open>close\<close> listener that \<open>localConnect\<close> adds to the socket.\<close>

definition local_close :: "bool \<Rightarrow> metric_call list" where
  "local_close hadError =
     MDec ActiveTunnels # (if hadError then [MInc TunnelErrors (Some 1)] else [])"

definition end_500 :: "string \<Rightarrow> connect_out \<Rightarrow> connect_out" where
  "end_500 msg out =
     out\<lparr>co_ends := co_ends out @ [HTTP_500], co_result := Some (Inl (HandledTunnelingError msg))\<rparr>"

definition forward_to ::
  "string option \<Rightarrow> vpn_host \<Rightarrow> string \<Rightarrow> int \<Rightarrow> string option \<Rightarrow> tunnel_world \<Rightarrow> connect_out \<Rightarrow>
   connect_out" where
  "forward_to dsn h uuid port auth w out =
     (let (res, caps) = forwardRequest dsn uuid port (remote_events w)
      in out\<lparr>co_sent := Some (host_ip_address h, forward_request_text uuid port auth),
             co_captures := co_captures out @ caps,
             co_result := map_option (map_sum id (\<lambda>_. RemoteSocket (host_ip_address h))) res\<rparr>)"

text \<open>The two ways on when the API names no other instance: try the lookup again after a pause, or
  give up.\<close>

definition retry_local :: "int \<Rightarrow> string \<Rightarrow> string \<Rightarrow> tunnel_world \<Rightarrow> connect_out \<Rightarrow> connect_out" where
  "retry_local port host uuid w out =
     (if deviceIsLocal (dns_retry w) uuid then localConnect port host w out
      else end_500 ''device is not available on registered service instance'' out)"

definition connect_try ::
  "proxy_config \<Rightarrow> balena_api \<Rightarrow> int \<Rightarrow> string \<Rightarrow> string \<Rightarrow> string option \<Rightarrow> tunnel_world \<Rightarrow> connect_out \<Rightarrow>
   connect_out" where
  "connect_try cfg api port host uuid auth w out =
     (if deviceIsLocal (dns_first w) uuid then localConnect port host w out
      else
        let (answer, caps) = getDeviceVpnHost api (proxy_guest_key cfg) (proxy_sentry_dsn cfg) uuid auth;
            out = out\<lparr>co_captures := co_captures out @ caps\<rparr>
        in case answer of
             Inl e \<Rightarrow> out\<lparr>co_result := Some (Inl e)\<rparr>
           | Inr NoVpnHost \<Rightarrow> end_500 ''service instance not found for device'' out
           | Inr VpnHostUnknown \<Rightarrow> retry_local port host uuid w out
           | Inr (VpnHost h) \<Rightarrow>
               if host_id h = proxy_serviceId cfg then retry_local port host uuid w out
               else
                 let sig = forward_signature (proxy_serviceId cfg);
                     fwd = forward_to (proxy_sentry_dsn cfg) h uuid port auth w
                 in case co_forwarded out of
                      Some f \<Rightarrow>
                        if str_includes f sig then end_500 ''loop detected forwarding tunnel request'' out
                        else fwd (out\<lparr>co_forwarded := Some (f @ '','' @ sig)\<rparr>)
                    | None \<Rightarrow> fwd (out\<lparr>co_forwarded := Some sig\<rparr>))"

definition connect_catch :: "connect_out \<Rightarrow> connect_out" where
  "connect_catch out =
     (case co_result out of
        Some (Inl err) \<Rightarrow>
          (case err of HandledTunnelingError _ \<Rightarrow> out | _ \<Rightarrow> end_500 (error_message err) out)
      | _ \<Rightarrow> out)"

definition connect ::
  "proxy_config \<Rightarrow> balena_api \<Rightarrow> tunnel_request \<Rightarrow> int \<Rightarrow> string \<Rightarrow> tunnel_world \<Rightarrow> connect_out" where
  "connect cfg api req port host w =
     (let out = \<lparr> co_ends = [], co_forwarded = req_forwarded req, co_sent = None, co_metrics = [],
                  co_captures = [], co_result = None \<rparr>
      in case parseRequest req of
           Inl e \<Rightarrow> out\<lparr>co_result := Some (Inl e)\<rparr>
         | Inr (uuid, _, auth) \<Rightarrow> connect_catch (connect_try cfg api port host uuid auth w out))"

text \<open>The tunnel's \<open>error\<close> listener: which errors are logged and captured.\<close>

definition tunnel_on_error :: "proxy_config \<Rightarrow> js_error \<Rightarrow> capture list" where
  "tunnel_on_error cfg err =
     (case err of
        HandledTunnelingError _ \<Rightarrow> []
      | _ \<Rightarrow> captureException (proxy_sentry_dsn cfg) (error_message err) ''proxy-connect-error'' [])"

subsection \<open>The target format\<close>

definition url_text :: "string \<Rightarrow> string \<Rightarrow> string option \<Rightarrow> string" where
  "url_text uuid tld port =
     uuid @ ''.'' @ tld @ (case port of None \<Rightarrow> '''' | Some p \<Rightarrow> '':'' @ p)"

definition target_ok :: "string \<Rightarrow> string \<Rightarrow> string option \<Rightarrow> bool" where
  "target_ok uuid tld port \<longleftrightarrow>
     uuid \<noteq> [] \<and> list_all is_hex uuid \<and> tld \<in> set tlds \<and>
     (case port of None \<Rightarrow> True | Some p \<Rightarrow> p \<noteq> [] \<and> list_all is_digit p)"

lemma find_tld:
  "tld \<in> set tlds \<Longrightarrow> find (starts_with (tld @ r)) tlds = Some tld"
  by (auto simp: tlds_def)

lemma match_port_text:
  "match_port r = Some p \<longleftrightarrow>
     r = (case p of None \<Rightarrow> '''' | Some ds \<Rightarrow> '':'' @ ds) \<and>
     (case p of None \<Rightarrow> True | Some ds \<Rightarrow> ds \<noteq> [] \<and> list_all is_digit ds)"
  by (cases r; cases p) (auto simp: match_port_def split: if_splits)

lemma takeWhile_hex_dot:
  assumes "list_all is_hex uuid"
  shows "takeWhile is_hex (uuid @ CHR ''.'' # r) = uuid"
    and "dropWhile is_hex (uuid @ CHR ''.'' # r) = CHR ''.'' # r"
proof -
  have "\<not> is_hex CHR ''.''" by (simp add: is_hex_def is_digit_def)
  then show "takeWhile is_hex (uuid @ CHR ''.'' # r) = uuid"
    and "dropWhile is_hex (uuid @ CHR ''.'' # r) = CHR ''.'' # r"
    using assms by (auto simp: list_all_iff)
qed

lemma match_url_iff:
  "match_url url = Some (uuid, tld, port) \<longleftrightarrow> target_ok uuid tld port \<and> url = url_text uuid tld port"
proof
  assume m: "match_url url = Some (uuid, tld, port)"
  then obtain r where uuid: "uuid = takeWhile is_hex url" "uuid \<noteq> []"
    and drop: "dropWhile is_hex url = CHR ''.'' # r" and tld: "find (starts_with r) tlds = Some tld"
    and port: "match_port (drop (length tld) r) = Some port"
    by (auto simp: match_url_def Let_def split: list.splits if_splits option.splits)
  have "tld \<in> set tlds" "starts_with r tld" using tld by (auto simp: find_Some_iff)
  then obtain r' where r: "r = tld @ r'" by (auto simp: starts_with_iff)
  have "url = uuid @ CHR ''.'' # r" using uuid(1) drop by (metis takeWhile_dropWhile_id)
  moreover have "list_all is_hex uuid" using uuid(1) by (auto simp: list_all_iff dest: set_takeWhileD)
  ultimately show "target_ok uuid tld port \<and> url = url_text uuid tld port"
    using uuid(2) \<open>tld \<in> set tlds\<close> port r by (auto simp: target_ok_def url_text_def match_port_text)
next
  assume ok: "target_ok uuid tld port \<and> url = url_text uuid tld port"
  then have hex: "list_all is_hex uuid" and tld: "tld \<in> set tlds" by (auto simp: target_ok_def)
  let ?p = "case port of None \<Rightarrow> '''' | Some ds \<Rightarrow> '':'' @ ds"
  have "match_port ?p = Some port" using ok by (auto simp: match_port_text target_ok_def)
  then show "match_url url = Some (uuid, tld, port)"
    using ok takeWhile_hex_dot [OF hex] find_tld [OF tld]
    by (simp add: match_url_def url_text_def target_ok_def)
qed

lemma parseRequest_Inr:
  assumes "parseRequest req = Inr (uuid, port, auth)"
  shows "uuid \<noteq> []" and "list_all is_hex uuid" and "0 \<le> port" and "auth = req_auth_password req"
proof -
  obtain url tld p where url: "match_url url = Some (uuid, tld, p)" "auth = req_auth_password req"
      and port: "port = the (parseInt (case p of None \<Rightarrow> ''80'' | Some ds \<Rightarrow> ds))"
    using assms by (auto simp: parseRequest_def Let_def split: option.splits)
  then have ok: "target_ok uuid tld p" by (simp add: match_url_iff)
  then show "uuid \<noteq> []" "list_all is_hex uuid" by (auto simp: target_ok_def)
  show "auth = req_auth_password req" by (rule url(2))
  have "parseInt (case p of None \<Rightarrow> ''80'' | Some ds \<Rightarrow> ds) =
      Some (int (digits_val (case p of None \<Rightarrow> ''80'' | Some ds \<Rightarrow> ds)))"
    using ok by (intro parseInt_digits)
      (auto simp: target_ok_def list_all_iff is_digit_def split: option.splits)
  then show "0 \<le> port" using port by simp
qed

lemma parseRequest_text:
  assumes "uuid \<noteq> []" "list_all is_hex uuid" "tld \<in> set tlds" "0 \<le> port"
  shows "parseRequest (req\<lparr>req_url := Some (uuid @ ''.'' @ tld @ '':'' @ show_int port)\<rparr>) =
    Inr (uuid, port, req_auth_password req)"
proof -
  have "target_ok uuid tld (Some (show_int port))"
    using assms by (simp add: target_ok_def show_int_nonneg list_all_iff show_nat_digits)
  then have "match_url (uuid @ ''.'' @ tld @ '':'' @ show_int port) = Some (uuid, tld, Some (show_int port))"
    by (simp add: match_url_iff url_text_def)
  then show ?thesis by (simp add: parseRequest_def)
qed

subsection \<open>Properties of the middleware\<close>

text \<open>C27. The target pattern accepts exactly the documented targets and takes them apart
  unambiguously: a non-empty hexadecimal uuid, a dot, one of the three top-level domains, and
  optionally a colon and a decimal port.\<close>

theorem target_pattern:
  "match_url url = Some (uuid, tld, port) \<longleftrightarrow>
     uuid \<noteq> [] \<and> list_all is_hex uuid \<and> tld \<in> {''balena'', ''resin'', ''vpn''} \<and>
     (case port of
        None \<Rightarrow> url = uuid @ ''.'' @ tld
      | Some p \<Rightarrow> p \<noteq> [] \<and> list_all is_digit p \<and> url = uuid @ ''.'' @ tld @ '':'' @ p)"
  by (cases port) (auto simp: match_url_iff target_ok_def url_text_def tlds_def)

text \<open>When the middleware lets a request pass.\<close>

definition admitted :: "proxy_config \<Rightarrow> balena_api \<Rightarrow> tunnel_request \<Rightarrow> string \<Rightarrow> int \<Rightarrow> bool" where
  "admitted cfg api req uuid port \<longleftrightarrow>
     (\<exists>auth did. parseRequest req = Inr (uuid, port, auth) \<and>
        canAccessDevice api (proxy_guest_key cfg) uuid port auth = Some did \<and> did \<noteq> 0 \<and>
        fst (isDeviceConnectedToVpn api (proxy_guest_key cfg) (proxy_sentry_dsn cfg) did
               (Some (proxy_service_key cfg))) = Inr True)"

lemma isDeviceConnectedToVpn_error:
  "isDeviceConnectedToVpn api g d did auth = (Inl e, caps) \<Longrightarrow> \<exists>m. e = APIError m"
  by (auto simp: isDeviceConnectedToVpn_def split: sum.splits option.splits)

lemma parseRequest_error:
  "parseRequest req = Inl e \<Longrightarrow> e = BadRequestError \<or> (\<exists>h. e = InvalidHostnameError h)"
  by (auto simp: parseRequest_def Let_def split: option.splits)

lemma tunnel_try_cases:
  "(\<exists>uuid port caps. admitted cfg api req uuid port \<and>
      tunnel_try cfg api req = ([], caps, Inr (uuid @ ''.vpn:'' @ show_int port))) \<or>
   (\<nexists>uuid port. admitted cfg api req uuid port) \<and>
   (\<exists>ends caps e r. tunnel_try cfg api req = (ends, caps, Inl e) \<and> ends @ fst (tunnel_catch cfg e) = [r] \<and>
      r \<in> set (map http_reply [''400 Bad Request'', ''403 Forbidden'', ''407 Proxy Authorization Required'',
        ''500 Internal Server Error'', ''503 Service Unavailable'']))"
proof (cases "parseRequest req")
  case (Inl e)
  then show ?thesis
    using parseRequest_error [OF Inl] by (auto simp: tunnel_try_def admitted_def tunnel_catch_def)
next
  case (Inr t)
  obtain uuid port auth where t: "t = (uuid, port, auth)" by (cases t) auto
  show ?thesis
  proof (cases "canAccessDevice api (proxy_guest_key cfg) uuid port auth")
    case None
    then show ?thesis using Inr t by (simp add: tunnel_try_def admitted_def tunnel_catch_def)
  next
    case (Some did)
    obtain res caps where c: "isDeviceConnectedToVpn api (proxy_guest_key cfg) (proxy_sentry_dsn cfg) did
        (Some (proxy_service_key cfg)) = (res, caps)" by fastforce
    show ?thesis
    proof (cases "did = 0")
      case True
      then show ?thesis using Inr t Some by (simp add: tunnel_try_def admitted_def tunnel_catch_def)
    next
      case False
      note facts = Inr t Some c False
      show ?thesis
      proof (cases res)
        case (Inl e)
        then obtain m where "e = APIError m" using isDeviceConnectedToVpn_error c by blast
        with Inl show ?thesis
          using facts by (simp add: tunnel_try_def admitted_def tunnel_catch_def HTTP_500_def)
      next
        case (Inr b)
        then show ?thesis
          using facts by (cases b) (simp_all add: tunnel_try_def admitted_def tunnel_catch_def)
      qed
    qed
  qed
qed

text \<open>The middleware decides every request and answers it once.  It passes a request on exactly
  when the target parses, the API says the caller may access the device at that port, and the
  API, asked with the service's own key, says the device is connected; then nothing has been
  written to the client and the target is \<open>uuid.vpn:port\<close>.  In every other case -- an invalid
  target, a denied or failed access check, a device that is not connected, an API error -- it
  does not pass the request on, leaves the target as it was and ends the client's connection
  with exactly one response, one of 400, 403, 407, 500 and 503.\<close>

theorem middleware_decides:
  "if mw_next (tunnelToDevice cfg api req)
   then \<exists>uuid port. admitted cfg api req uuid port \<and> mw_ends (tunnelToDevice cfg api req) = [] \<and>
          mw_url (tunnelToDevice cfg api req) = Some (uuid @ ''.vpn:'' @ show_int port)
   else (\<nexists>uuid port. admitted cfg api req uuid port) \<and>
        mw_url (tunnelToDevice cfg api req) = req_url req \<and>
        (\<exists>r. mw_ends (tunnelToDevice cfg api req) = [r] \<and>
           r \<in> set (map http_reply [''400 Bad Request'', ''403 Forbidden'',
             ''407 Proxy Authorization Required'', ''500 Internal Server Error'',
             ''503 Service Unavailable'']))"
  using tunnel_try_cases [of cfg api req] by (auto simp: tunnelToDevice_def) blast

text \<open>A request that the middleware passed on is understood the same way by \<open>connect\<close>: the
  rewritten target parses to the same device, port and credentials, so the parse error that
  \<open>connect\<close> would not answer cannot occur after the middleware.\<close>

theorem rewritten_target_parses:
  assumes "mw_next (tunnelToDevice cfg api req)"
  shows "parseRequest (req\<lparr>req_url := mw_url (tunnelToDevice cfg api req)\<rparr>) = parseRequest req"
proof -
  obtain uuid port where a: "admitted cfg api req uuid port"
      and url: "mw_url (tunnelToDevice cfg api req) = Some (uuid @ ''.vpn:'' @ show_int port)"
    using tunnel_try_cases [of cfg api req] assms by (auto simp: tunnelToDevice_def)
  then obtain auth where p: "parseRequest req = Inr (uuid, port, auth)" by (auto simp: admitted_def)
  note ok = parseRequest_Inr [OF p]
  have "parseRequest (req\<lparr>req_url := Some (uuid @ ''.'' @ ''vpn'' @ '':'' @ show_int port)\<rparr>) =
      Inr (uuid, port, req_auth_password req)"
    using ok by (intro parseRequest_text) (auto simp: tlds_def)
  then show ?thesis using url p ok(4) by simp
qed

definition demo_api :: balena_api where
  "demo_api =
     \<lparr> api_canAccess = (\<lambda>url actions auth. if auth = Some ''Bearer pw'' then Inr (Some [42]) else Inr (Some [])),
       api_connectedDevice = (\<lambda>did auth. if auth = Some ''Bearer svc'' then Inr (Some did) else Inr None),
       api_serviceInstances = (\<lambda>uuid auth. Inr [\<lparr> host_id = 9, host_ip_address = ''10.1.0.9'' \<rparr>]) \<rparr>"

definition demo_proxy_config :: proxy_config where
  "demo_proxy_config =
     \<lparr> proxy_guest_key = None, proxy_sentry_dsn = None, proxy_service_key = ''svc'',
       proxy_serviceId = 7, proxy_instanceId = 1 \<rparr>"

definition demo_tunnel_request :: tunnel_request where
  "demo_tunnel_request =
     \<lparr> req_url = Some ''c0ffee.balena:22'', req_auth_password = Some ''pw'', req_forwarded = None \<rparr>"

lemma demo_admitted: "mw_next (tunnelToDevice demo_proxy_config demo_api demo_tunnel_request)"
  by code_simp

theorem rewritten_target_parses_witness:
  "parseRequest (demo_tunnel_request\<lparr>req_url := Some ''c0ffee.vpn:22''\<rparr>) =
     Inr (''c0ffee'', 22, Some ''pw'')"
proof -
  have "mw_url (tunnelToDevice demo_proxy_config demo_api demo_tunnel_request) = Some ''c0ffee.vpn:22''"
    by code_simp
  moreover have "parseRequest demo_tunnel_request = Inr (''c0ffee'', 22, Some ''pw'')" by code_simp
  ultimately show ?thesis using rewritten_target_parses [OF demo_admitted] by simp
qed

subsection \<open>Properties of the forwarding client\<close>

lemma settle_settled [simp]:
  "settled (settle r st) = (case settled st of None \<Rightarrow> Some r | Some r' \<Rightarrow> Some r')"
  by (simp add: settle_def split: option.split)

lemma step_settled: "settled st = Some r \<Longrightarrow> settled (forward_step dsn uuid port st ev) = Some r"
  by (auto simp: forward_step_def Let_def split: forward_event.split)

lemma foldl_settled:
  "settled st = Some r \<Longrightarrow> settled (foldl (forward_step dsn uuid port) st evs) = Some r"
  by (induction evs arbitrary: st) (simp_all add: step_settled)

definition forward_verdict :: "string \<Rightarrow> int \<Rightarrow> string \<Rightarrow> unit result" where
  "forward_verdict uuid port line =
     (if http_status line = Some 200 then Inr () else Inl (could_not_connect uuid port line))"

lemma first_line_append:
  "str_includes a [CR, LF] \<Longrightarrow> first_line (a @ b) = first_line a"
proof (induction a rule: first_line.induct)
  case (3 c d s)
  then show ?case by auto
qed auto

lemma includes_CRLF:
  assumes "str_includes a [CR, LF, CR, LF]"
  shows "str_includes a [CR, LF]"
proof -
  obtain x y where "a = x @ [CR, LF] @ ([CR, LF] @ y)" using assms by (auto simp: str_includes_iff)
  then show ?thesis unfolding str_includes_iff by blast
qed

lemma forward_chunks:
  "\<not> str_includes (tunnelProxyResponse st) [CR, LF, CR, LF] \<Longrightarrow> settled st = None \<Longrightarrow> listening st \<Longrightarrow>
   foldl (forward_step dsn uuid port) st (map FwdData chunks) = st' \<Longrightarrow>
   settled st' =
     (if str_includes (tunnelProxyResponse st @ concat chunks) [CR, LF, CR, LF]
      then Some (forward_verdict uuid port (first_line (tunnelProxyResponse st @ concat chunks))) else None) \<and>
   (settled st' = None \<longrightarrow> listening st')"
proof (induction chunks arbitrary: st)
  case Nil
  then show ?case by auto
next
  case (Cons c cs)
  let ?r = "tunnelProxyResponse st @ c"
  let ?st = "forward_step dsn uuid port st (FwdData c)"
  show ?case
  proof (cases "str_includes ?r [CR, LF, CR, LF]")
    case True
    then have "str_includes (?r @ concat cs) [CR, LF, CR, LF]"
      and "first_line (?r @ concat cs) = first_line ?r"
      by (simp_all only: str_includes_append first_line_append includes_CRLF)
    moreover have "settled ?st = Some (forward_verdict uuid port (first_line ?r))"
      using Cons.prems True by (simp add: forward_step_def Let_def forward_verdict_def)
    ultimately show ?thesis using Cons.prems(4) foldl_settled by fastforce
  next
    case False
    then have "?st = st\<lparr>tunnelProxyResponse := ?r\<rparr>"
      using Cons.prems(3) by (simp add: forward_step_def Let_def)
    then show ?thesis using Cons.IH [of ?st] Cons.prems False by simp
  qed
qed

text \<open>C25. The verdict on a forwarded tunnel depends only on the first line of what the other
  instance answers, not on how the answer arrives: once the chunks received contain an empty
  line, the tunnel is accepted if the status code of the first line is 200 and rejected
  otherwise, whatever comes later; if the connection ends or fails before that, the tunnel is
  rejected.\<close>

theorem forward_verdict_spec:
  "fst (forwardRequest dsn uuid port (map FwdData chunks @ ev # rest)) =
     (if str_includes (concat chunks) [CR, LF, CR, LF]
      then Some (if http_status (first_line (concat chunks)) = Some 200 then Inr ()
                 else Inl (could_not_connect uuid port (first_line (concat chunks))))
      else case ev of
        FwdEnd \<Rightarrow> Some (Inl (could_not_connect uuid port ''tunneling socket closed prematurely''))
      | FwdError msg \<Rightarrow>
          Some (Inl (RemoteTunnellingError
            (''could not connect to vpn tunnel'' @ (if msg = '''' then '''' else '': '' @ msg))))
      | FwdData chunk \<Rightarrow> fst (forwardRequest dsn uuid port (map FwdData (chunks @ [chunk]) @ rest)))"
proof -
  let ?f = "forward_step dsn uuid port"
  let ?st = "foldl ?f forward_init (map FwdData chunks)"
  have st: "settled ?st =
       (if str_includes (concat chunks) [CR, LF, CR, LF]
        then Some (forward_verdict uuid port (first_line (concat chunks))) else None)"
    and listens: "settled ?st = None \<Longrightarrow> listening ?st"
    using forward_chunks [of forward_init dsn uuid port chunks ?st] by (simp_all add: forward_init_def)
  have all: "fst (forwardRequest dsn uuid port (map FwdData chunks @ ev # rest)) =
      settled (foldl ?f (?f ?st ev) rest)"
    by (simp add: forwardRequest_def Let_def)
  show ?thesis
  proof (cases "str_includes (concat chunks) [CR, LF, CR, LF]")
    case True
    then show ?thesis
      using all st foldl_settled [of ?st _ dsn uuid port "ev # rest"] by (simp add: forward_verdict_def)
  next
    case False
    then have none: "settled ?st = None" and on: "listening ?st" using st listens by simp_all
    show ?thesis
    proof (cases ev)
      case (FwdData c)
      then show ?thesis using False by (simp add: forwardRequest_def)
    next
      case FwdEnd
      then have "settled (?f ?st ev) =
          Some (Inl (could_not_connect uuid port ''tunneling socket closed prematurely''))"
        using none on by (simp add: forward_step_def)
      then show ?thesis using all False FwdEnd foldl_settled by simp
    next
      case (FwdError msg)
      then have "settled (?f ?st ev) = Some (Inl (RemoteTunnellingError
          (''could not connect to vpn tunnel'' @ (if msg = '''' then '''' else '': '' @ msg))))"
        using none on by (simp add: forward_step_def)
      then show ?thesis using all False FwdError foldl_settled by simp
    qed
  qed
qed

text \<open>Base64 decoding, the specification of \<open>base64_encode\<close>.\<close>

definition base64_index :: "char \<Rightarrow> nat" where
  "base64_index c = (if c = CHR ''='' then 0 else length (takeWhile (\<lambda>d. d \<noteq> c) base64_alphabet))"

fun base64_decode :: "string \<Rightarrow> string" where
  "base64_decode (p # q # r # t # s) =
     (let n = ((base64_index p * 64 + base64_index q) * 64 + base64_index r) * 64 + base64_index t
      in if r = CHR ''='' then [char_of (n div 65536)]
         else if t = CHR ''='' then [char_of (n div 65536), char_of (n div 256)]
         else char_of (n div 65536) # char_of (n div 256) # char_of n # base64_decode s)"
| "base64_decode _ = []"

lemma base64_digit_index:
  "base64_index (base64_digit n) = n mod 64" "base64_digit n \<noteq> CHR ''=''"
proof -
  have "list_all (\<lambda>i. base64_index (base64_digit i) = i \<and> base64_digit i \<noteq> CHR ''='') [0..<64]"
    by code_simp
  then have "\<forall>i \<in> set [0..<64]. base64_index (base64_digit i) = i \<and> base64_digit i \<noteq> CHR ''=''"
    by (simp add: list_all_iff del: set_upt)
  moreover have "n mod 64 \<in> set [0..<64]" by simp
  moreover have "base64_digit (n mod 64) = base64_digit n" by (simp add: base64_digit_def)
  ultimately show "base64_index (base64_digit n) = n mod 64" "base64_digit n \<noteq> CHR ''=''"
    by metis+
qed

lemma base64_group:
  assumes "(n::nat) < 16777216"
  shows "((n div 262144 mod 64 * 64 + n div 4096 mod 64) * 64 + n div 64 mod 64) * 64 + n mod 64 = n"
proof -
  have "n div 262144 = n div 4096 div 64" "n div 4096 = n div 64 div 64"
    by (simp_all flip: div_mult2_eq)
  moreover have "n div 262144 mod 64 = n div 262144" using assms by (intro mod_less) simp
  ultimately show ?thesis by (metis div_mult_mod_eq)
qed

lemma of_char_less: "(of_char c :: nat) < 256"
  by simp

lemma three_bytes:
  fixes x y z :: nat
  assumes "x < 256" "y < 256" "z < 256"
  shows "(x * 256 + y) * 256 + z < 16777216"
    and "((x * 256 + y) * 256 + z) div 65536 = x"
    and "((x * 256 + y) * 256 + z) div 256 = x * 256 + y"
    and "((x * 256 + y) * 256 + z) mod 256 = z"
proof -
  have "x \<le> 255" "y \<le> 255" "z \<le> 255" using assms by auto
  then have "(x * 256 + y) * 256 + z \<le> (255 * 256 + 255) * 256 + 255"
    by (intro add_mono mult_le_mono1)
  then show "(x * 256 + y) * 256 + z < 16777216" by simp
  have low: "(u * 256 + v) div 256 = u" "(u * 256 + v) mod 256 = v" if "v < 256" for u v :: nat
    using that by simp_all
  show d: "((x * 256 + y) * 256 + z) div 256 = x * 256 + y" by (rule low(1) [OF assms(3)])
  show "((x * 256 + y) * 256 + z) mod 256 = z" by (rule low(2) [OF assms(3)])
  have "((x * 256 + y) * 256 + z) div 65536 = ((x * 256 + y) * 256 + z) div 256 div 256"
    by (simp flip: div_mult2_eq)
  then show "((x * 256 + y) * 256 + z) div 65536 = x" unfolding d low(1) [OF assms(2)] .
qed

lemma base64_bytes:
  fixes a b c :: char
  defines "n \<equiv> (of_char a * 256 + of_char b) * 256 + of_char c :: nat"
  shows "n < 16777216" "char_of (n div 65536) = a" "char_of (n div 256) = b" "char_of n = c"
proof -
  note bytes = three_bytes [OF of_char_less [of a] of_char_less [of b] of_char_less [of c]]
  show "n < 16777216" unfolding n_def by (rule bytes(1))
  show "char_of (n div 65536) = a" unfolding n_def bytes(2) by simp
  have "char_of ((of_char a * 256 + of_char b) mod 256 :: nat) = b" by simp
  then show "char_of (n div 256) = b" unfolding n_def bytes(3) by (metis char_of_mod_256)
  have "n mod 256 = of_char c" unfolding n_def by (rule bytes(4))
  then show "char_of n = c" by (metis char_of_mod_256 char_of_char)
qed

lemma base64_group_index:
  assumes "n < 16777216"
  shows "((base64_index (base64_digit (n div 262144)) * 64 + base64_index (base64_digit (n div 4096))) * 64 +
    base64_index (base64_digit (n div 64))) * 64 + base64_index (base64_digit n) = n"
  unfolding base64_digit_index by (rule base64_group [OF assms])

text \<open>The groups of one and of two bytes.\<close>

lemma base64_short_groups:
  fixes n :: nat
  shows "n < 4096 \<Longrightarrow> (n div 64 mod 64 * 64 + n mod 64) * 64 * 64 = n * 4096"
    and "n < 262144 \<Longrightarrow> ((n div 4096 mod 64 * 64 + n div 64 mod 64) * 64 + n mod 64) * 64 = n * 64"
proof -
  assume "n < 4096"
  then have "n div 64 mod 64 = n div 64" by (intro mod_less) simp
  then show "(n div 64 mod 64 * 64 + n mod 64) * 64 * 64 = n * 4096" by simp
next
  assume "n < 262144"
  then have "n div 4096 mod 64 = n div 4096" by (intro mod_less) simp
  moreover have "n div 4096 = n div 64 div 64" by (simp flip: div_mult2_eq)
  ultimately have "(n div 4096 mod 64 * 64 + n div 64 mod 64) * 64 + n mod 64 = n"
    by (metis div_mult_mod_eq)
  then show "((n div 4096 mod 64 * 64 + n div 64 mod 64) * 64 + n mod 64) * 64 = n * 64" by (simp only:)
qed

lemma base64_round_trip: "base64_decode (base64_encode s) = s"
proof (induction s rule: base64_encode.induct)
  case (2 a)
  let ?n = "of_char a * 16 :: nat"
  have "(?n div 64 mod 64 * 64 + ?n mod 64) * 64 * 64 = ?n * 4096"
    by (rule base64_short_groups(1)) (use of_char_less [of a] in linarith)
  moreover have "?n * 4096 div 65536 = of_char a" by simp
  ultimately show ?case
    by (simp only: base64_encode.simps Let_def base64_decode.simps base64_digit_index
        base64_index_def [of "CHR ''=''"] simp_thms if_True add_0_right char_of_char)
next
  case (3 a b)
  let ?n = "(of_char a * 256 + of_char b) * 4 :: nat"
  have "((?n div 4096 mod 64 * 64 + ?n div 64 mod 64) * 64 + ?n mod 64) * 64 = ?n * 64"
    by (rule base64_short_groups(2)) (use three_bytes(1) [OF of_char_less [of a] of_char_less [of b], of 0] in linarith)
  moreover have "?n * 64 div 65536 = of_char a" "?n * 64 div 256 = of_char a * 256 + of_char b"
    using three_bytes(2,3) [OF of_char_less [of a] of_char_less [of b], of 0] by simp_all
  moreover have "char_of ((of_char a * 256 + of_char b) mod 256 :: nat) = b" by simp
  then have "char_of (of_char a * 256 + of_char b :: nat) = b" by (metis char_of_mod_256)
  ultimately show ?case
    by (simp only: base64_encode.simps Let_def base64_decode.simps base64_digit_index
        base64_index_def [of "CHR ''=''"] simp_thms if_True if_False add_0_right char_of_char)
next
  case (4 a b c s)
  note bytes = base64_bytes [of a b c]
  show ?case
    by (simp only: base64_encode.simps Let_def base64_decode.simps base64_group_index [OF bytes(1)]
        base64_digit_index(2) bytes(2-4) 4 if_False simp_thms)
qed simp

subsection \<open>Properties of connect\<close>

definition connect_start :: "tunnel_request \<Rightarrow> connect_out" where
  "connect_start req =
     \<lparr> co_ends = [], co_forwarded = req_forwarded req, co_sent = None, co_metrics = [],
       co_captures = [], co_result = None \<rparr>"

lemma connect_parsed:
  assumes "parseRequest req = Inr (uuid, p, auth)"
  shows "connect cfg api req port host w =
    connect_catch (connect_try cfg api port host uuid auth w (connect_start req))"
  using assms by (simp add: connect_def connect_start_def)

text \<open>The forwarding client only fails with its own kind of error.\<close>

lemma forward_step_error:
  assumes "\<forall>e. settled st = Some (Inl e) \<longrightarrow> (\<exists>m. e = RemoteTunnellingError m)"
    and "settled (forward_step dsn uuid port st ev) = Some (Inl e)"
  shows "\<exists>m. e = RemoteTunnellingError m"
  using assms
  by (auto simp: forward_step_def Let_def could_not_connect_def
      split: if_splits forward_event.splits option.splits)

lemma forwardRequest_error:
  assumes "forwardRequest dsn uuid port evs = (Some (Inl e), caps)"
  shows "\<exists>m. e = RemoteTunnellingError m"
proof -
  have "\<forall>e. settled st = Some (Inl e) \<longrightarrow> (\<exists>m. e = RemoteTunnellingError m) \<Longrightarrow>
      settled (foldl (forward_step dsn uuid port) st evs) = Some (Inl e) \<Longrightarrow>
      \<exists>m. e = RemoteTunnellingError m" for st
  proof (induction evs arbitrary: st)
    case (Cons ev evs)
    have "\<forall>e. settled (forward_step dsn uuid port st ev) = Some (Inl e) \<longrightarrow>
        (\<exists>m. e = RemoteTunnellingError m)"
      using forward_step_error [OF Cons.prems(1)] by blast
    then show ?case using Cons.IH Cons.prems(2) by simp
  qed simp
  from this [of forward_init] show ?thesis
    using assms by (simp add: forwardRequest_def forward_init_def Let_def)
qed

text \<open>How a connection attempt can have ended before and after the \<open>catch\<close> block: still open, with a
  socket and nothing written, with a handled error and the response written, or (before) with
  another error and nothing written.\<close>

definition answered :: "connect_out \<Rightarrow> bool" where
  "answered out \<longleftrightarrow>
     (case co_result out of
        None \<Rightarrow> co_ends out = [] \<and> co_sent out \<noteq> None
      | Some (Inr _) \<Rightarrow> co_ends out = []
      | Some (Inl e) \<Rightarrow> co_ends out = [HTTP_500] \<and> (\<exists>m. e = HandledTunnelingError m))"

definition unanswered_error :: "connect_out \<Rightarrow> bool" where
  "unanswered_error out \<longleftrightarrow> co_ends out = [] \<and>
     (\<exists>e. co_result out = Some (Inl e) \<and> (\<forall>m. e \<noteq> HandledTunnelingError m))"

lemma connect_catch_answered:
  "answered out \<or> unanswered_error out \<Longrightarrow> answered (connect_catch out)"
  by (auto simp: answered_def unanswered_error_def connect_catch_def end_500_def
      split: option.splits sum.splits js_error.splits)

lemma localConnect_ends:
  "co_ends out = [] \<Longrightarrow> answered (localConnect port host w out) \<or> unanswered_error (localConnect port host w out)"
  by (auto simp: localConnect_def answered_def unanswered_error_def split: sum.splits)

lemma end_500_ends: "co_ends out = [] \<Longrightarrow> answered (end_500 msg out)"
  by (simp add: end_500_def answered_def)

lemma retry_local_ends:
  "co_ends out = [] \<Longrightarrow>
   answered (retry_local port host uuid w out) \<or> unanswered_error (retry_local port host uuid w out)"
  using localConnect_ends end_500_ends by (simp add: retry_local_def)

lemma forward_to_ends:
  assumes "co_ends out = []"
  shows "answered (forward_to dsn h uuid port auth w out) \<or>
    unanswered_error (forward_to dsn h uuid port auth w out)"
proof -
  obtain res caps where r: "forwardRequest dsn uuid port (remote_events w) = (res, caps)" by fastforce
  consider "res = None" | m where "res = Some (Inl (RemoteTunnellingError m))" | "res = Some (Inr ())"
  proof (cases res)
    case (Some x)
    then show ?thesis using that forwardRequest_error [of dsn uuid port "remote_events w"] r by (cases x) auto
  qed
  then show ?thesis
    using assms by cases (simp_all add: forward_to_def r answered_def unanswered_error_def)
qed

lemma getDeviceVpnHost_error:
  "getDeviceVpnHost api g d uuid auth = (Inl e, caps) \<Longrightarrow> \<exists>m. e = APIError m"
  by (auto simp: getDeviceVpnHost_def split: sum.splits list.splits api_failure.splits if_splits)

lemma connect_try_ends:
  assumes "co_ends out = []"
  shows "answered (connect_try cfg api port host uuid auth w out) \<or>
    unanswered_error (connect_try cfg api port host uuid auth w out)"
proof -
  obtain answer caps where a:
    "getDeviceVpnHost api (proxy_guest_key cfg) (proxy_sentry_dsn cfg) uuid auth = (answer, caps)"
    by fastforce
  define out' where "out' = out\<lparr>co_captures := co_captures out @ caps\<rparr>"
  have ends: "co_ends out' = []" using assms by (simp add: out'_def)
  then have fwd: "co_ends (out'\<lparr>co_forwarded := f\<rparr>) = []" for f by simp
  have err: "unanswered_error (out'\<lparr>co_result := Some (Inl e)\<rparr>)" if "answer = Inl e" for e
    using ends getDeviceVpnHost_error [OF a [unfolded that]] by (auto simp: unanswered_error_def)
  show ?thesis
    using localConnect_ends [OF assms, of port host w] retry_local_ends [OF ends, of port host uuid w]
      end_500_ends [OF ends] forward_to_ends [OF fwd] err
    by (auto simp: connect_try_def a out'_def [symmetric] Let_def
        split: sum.splits vpn_host_answer.splits option.splits)
qed

text \<open>Every connection attempt for a valid target is answered exactly once.  It either gives a
  socket, and then nothing was written to the client; or it fails, and then exactly one 500
  response was written and the error is of the kind that the tunnel's error listener does not
  report again; or the forwarding connection to another instance is still undecided.\<close>

theorem connect_answers_once:
  assumes "parseRequest req = Inr (uuid, p, auth)"
  shows "case co_result (connect cfg api req port host w) of
      None \<Rightarrow> co_ends (connect cfg api req port host w) = [] \<and> co_sent (connect cfg api req port host w) \<noteq> None
    | Some (Inr _) \<Rightarrow> co_ends (connect cfg api req port host w) = []
    | Some (Inl e) \<Rightarrow>
        co_ends (connect cfg api req port host w) = [HTTP_500] \<and> tunnel_on_error cfg e = []"
proof -
  have "answered (connect cfg api req port host w)"
    unfolding connect_parsed [OF assms]
    by (intro connect_catch_answered connect_try_ends) (simp add: connect_start_def)
  then show ?thesis
    by (auto simp: answered_def tunnel_on_error_def split: option.splits sum.splits)
qed

definition demo_world :: tunnel_world where
  "demo_world =
     \<lparr> dns_first = (\<lambda>n. n = ''c0ffee.vpn''), dns_retry = (\<lambda>n. False), local_socket = Inl ''ECONNREFUSED'',
       remote_events = [] \<rparr>"

theorem connect_answers_once_witness:
  "co_ends (connect demo_proxy_config demo_api demo_tunnel_request 22 ''c0ffee.vpn'' demo_world) = [HTTP_500]"
proof -
  have "parseRequest demo_tunnel_request = Inr (''c0ffee'', 22, Some ''pw'')" by code_simp
  note once = connect_answers_once [OF this, of demo_proxy_config demo_api 22 "''c0ffee.vpn''" demo_world]
  have "co_result (connect demo_proxy_config demo_api demo_tunnel_request 22 ''c0ffee.vpn'' demo_world) =
      Some (Inl (HandledTunnelingError ''ECONNREFUSED''))"
    by code_simp
  with once show ?thesis by simp
qed

lemma connect_sent:
  assumes "co_sent (connect_try cfg api port host uuid auth w out) = Some (ip, txt)" "co_sent out = None"
  obtains h where "fst (getDeviceVpnHost api (proxy_guest_key cfg) (proxy_sentry_dsn cfg) uuid auth) =
      Inr (VpnHost h)" and "host_id h \<noteq> proxy_serviceId cfg" and "ip = host_ip_address h"
    and "txt = forward_request_text uuid port auth"
  using assms
  by (auto simp: connect_try_def retry_local_def localConnect_def end_500_def forward_to_def Let_def
      split: if_splits sum.splits vpn_host_answer.splits option.splits prod.splits)

lemma connect_catch_sent [simp]: "co_sent (connect_catch out) = co_sent out"
  by (auto simp: connect_catch_def end_500_def split: option.splits sum.splits js_error.splits)

text \<open>C26. A forwarded request asks the other instance for the same thing.  A request is only ever
  forwarded to the instance that the API names for the device, never to this instance itself;
  what is sent is a request line whose target parses to the same device and port, at most one
  credentials header, from which Base64 decoding gives back the caller's password, and the
  empty line.  In particular no other header of the request is sent along.\<close>

theorem forwarded_request_same_target:
  assumes "parseRequest req = Inr (uuid, p, auth)" and "0 \<le> port"
    and "co_sent (connect cfg api req port host w) = Some (ip, txt)"
  shows "\<exists>h target creds.
    fst (getDeviceVpnHost api (proxy_guest_key cfg) (proxy_sentry_dsn cfg) uuid auth) = Inr (VpnHost h) \<and>
    host_id h \<noteq> proxy_serviceId cfg \<and> ip = host_ip_address h \<and>
    txt = ''CONNECT '' @ target @ '' HTTP/1.0'' @ [CR, LF] @
      (case auth of None \<Rightarrow> '''' | Some _ \<Rightarrow> ''Proxy-Authorization: Basic '' @ creds @ [CR, LF]) @ [CR, LF] \<and>
    parseRequest (req\<lparr>req_url := Some target\<rparr>) = Inr (uuid, port, auth) \<and>
    (case auth of None \<Rightarrow> True | Some a \<Rightarrow> base64_decode creds = a)"
proof -
  have "co_sent (connect_try cfg api port host uuid auth w (connect_start req)) = Some (ip, txt)"
    using assms(3) unfolding connect_parsed [OF assms(1)] by simp
  moreover have "co_sent (connect_start req) = None" by (simp add: connect_start_def)
  ultimately obtain h where h:
    "fst (getDeviceVpnHost api (proxy_guest_key cfg) (proxy_sentry_dsn cfg) uuid auth) = Inr (VpnHost h)"
    "host_id h \<noteq> proxy_serviceId cfg" "ip = host_ip_address h"
    and sent: "txt = forward_request_text uuid port auth"
    by (rule connect_sent)
  define target where "target = uuid @ ''.'' @ ''balena'' @ '':'' @ show_int port"
  note ok = parseRequest_Inr [OF assms(1)]
  have parse: "parseRequest (req\<lparr>req_url := Some target\<rparr>) = Inr (uuid, port, auth)"
    using parseRequest_text [of uuid "''balena''" port req] ok assms(2)
    by (simp add: tlds_def target_def)
  have "txt = ''CONNECT '' @ target @ '' HTTP/1.0'' @ [CR, LF] @
      (case auth of None \<Rightarrow> ''''
         | Some _ \<Rightarrow> ''Proxy-Authorization: Basic '' @ base64_encode (the auth) @ [CR, LF]) @ [CR, LF]"
    by (simp add: sent forward_request_text_def target_def split: option.splits)
  moreover have "case auth of None \<Rightarrow> True | Some a \<Rightarrow> base64_decode (base64_encode (the auth)) = a"
    by (simp add: base64_round_trip split: option.splits)
  ultimately show ?thesis using h parse by blast
qed

definition demo_remote_world :: tunnel_world where
  "demo_remote_world =
     \<lparr> dns_first = (\<lambda>n. False), dns_retry = (\<lambda>n. False), local_socket = Inr (), remote_events = [FwdEnd] \<rparr>"

definition demo_guest_request :: tunnel_request where
  "demo_guest_request =
     \<lparr> req_url = Some ''c0ffee.balena'', req_auth_password = None, req_forwarded = None \<rparr>"

theorem forwarded_request_same_target_witness:
  "\<exists>(h :: vpn_host) target. ''10.1.0.9'' = host_ip_address h \<and> host_id h \<noteq> 7 \<and>
     parseRequest (demo_guest_request\<lparr>req_url := Some target\<rparr>) = Inr (''c0ffee'', 80, None)"
proof -
  have p: "parseRequest demo_guest_request = Inr (''c0ffee'', 80, None)" by code_simp
  have "co_sent (connect demo_proxy_config demo_api demo_guest_request 80 ''c0ffee.vpn'' demo_remote_world) =
      Some (''10.1.0.9'', forward_request_text ''c0ffee'' 80 None)"
    by code_simp
  from forwarded_request_same_target [OF p zero_le_numeral this] obtain h :: vpn_host and target where
    "host_id h \<noteq> proxy_serviceId demo_proxy_config" "''10.1.0.9'' = host_ip_address h"
    "parseRequest (demo_guest_request\<lparr>req_url := Some target\<rparr>) = Inr (''c0ffee'', 80, None)"
    by blast
  moreover have "proxy_serviceId demo_proxy_config = 7" by (simp add: demo_proxy_config_def)
  ultimately show ?thesis by metis
qed

subsection \<open>Tunnel metrics\<close>

text \<open>The tunnels of a proxy: those that are open, and the calls made to the metrics package.  A tunnel
  opens when \<open>localConnect\<close> succeeds; a socket emits \<open>close\<close> once.\<close>

record tunnels =
  open_tunnels :: "nat set"
  tunnel_calls :: "metric_call list"

datatype tunnel_event = TunnelOpen nat int string tunnel_world | TunnelClose nat bool

inductive tunnel_trans :: "tunnels \<Rightarrow> tunnel_event \<Rightarrow> tunnels \<Rightarrow> bool" where
  tunnel_open: "i \<notin> open_tunnels t \<Longrightarrow> co_result (localConnect port host w (connect_start req)) = Some (Inr (LocalSocket host port)) \<Longrightarrow>
    tunnel_trans t (TunnelOpen i port host w)
      (t\<lparr>open_tunnels := insert i (open_tunnels t),
         tunnel_calls := tunnel_calls t @ co_metrics (localConnect port host w (connect_start req))\<rparr>)"
| tunnel_close: "i \<in> open_tunnels t \<Longrightarrow>
    tunnel_trans t (TunnelClose i hadError)
      (t\<lparr>open_tunnels := open_tunnels t - {i}, tunnel_calls := tunnel_calls t @ local_close hadError\<rparr>)"

definition tunnels_start :: "tunnels \<Rightarrow> bool" where
  "tunnels_start t \<longleftrightarrow> t = \<lparr> open_tunnels = {}, tunnel_calls = [] \<rparr>"

definition tunnels_inv :: "tunnels \<Rightarrow> bool" where
  "tunnels_inv t \<longleftrightarrow> finite (open_tunnels t) \<and>
     metric_total ActiveTunnels (tunnel_calls t) = of_nat (card (open_tunnels t)) \<and>
     metric_total ActiveTunnels (tunnel_calls t) \<le> metric_total TotalTunnels (tunnel_calls t) \<and>
     metric_total ActiveTunnels (tunnel_calls t) + metric_total TunnelErrors (tunnel_calls t)
       \<le> metric_total TotalTunnels (tunnel_calls t)"

lemma local_metrics:
  assumes "co_result (localConnect port host w (connect_start req)) = Some (Inr (LocalSocket host port))"
  shows "co_metrics (localConnect port host w (connect_start req)) =
    [MInc ActiveTunnels (Some 1), MInc TotalTunnels (Some 1)]"
  using assms by (auto simp: localConnect_def connect_start_def split: sum.splits)

interpretation tunnel_machine: transition_invariant tunnels_start tunnel_trans tunnels_inv
proof
  fix t
  assume "tunnels_start t"
  then show "tunnels_inv t" by (simp add: tunnels_start_def tunnels_inv_def metric_total_def)
next
  fix t ev t'
  assume inv: "tunnels_inv t" and step: "tunnel_trans t ev t'"
  from step inv show "tunnels_inv t'"
  proof cases
    case (tunnel_open i port host w req)
    then show ?thesis
      using inv by (auto simp: tunnels_inv_def local_metrics) (auto simp: metric_total_def)
  next
    case (tunnel_close i hadError)
    moreover from tunnel_close(3) inv have "0 < card (open_tunnels t)"
      by (auto simp: tunnels_inv_def card_gt_0_iff)
    ultimately show ?thesis
      using inv by (auto simp: tunnels_inv_def local_close_def metric_total_def of_nat_diff)
  qed
qed

text \<open>C33. The tunnel metrics tell the truth: in every reachable state the gauge of active tunnels
  is the number of open tunnels, so it never becomes negative, and open tunnels and tunnels that
  ended with an error together never exceed the running total.\<close>

theorem active_tunnels_gauge:
  assumes "reach tunnels_start tunnel_trans t"
  shows "metric_total ActiveTunnels (tunnel_calls t) = of_nat (card (open_tunnels t)) \<and>
    of_nat (card (open_tunnels t)) + metric_total TunnelErrors (tunnel_calls t)
      \<le> metric_total TotalTunnels (tunnel_calls t)"
  using tunnel_machine.reach_inv [OF assms] by (simp add: tunnels_inv_def)

theorem active_tunnels_gauge_witness:
  "metric_total ActiveTunnels [MInc ActiveTunnels (Some 1), MInc TotalTunnels (Some 1)] = 1"
proof -
  let ?t = "\<lparr> open_tunnels = {}, tunnel_calls = [] \<rparr>"
  have open_ok: "co_result (localConnect 80 ''c0ffee.vpn'' demo_remote_world (connect_start demo_guest_request)) =
      Some (Inr (LocalSocket ''c0ffee.vpn'' 80))"
    by (simp add: localConnect_def demo_remote_world_def)
  have "tunnel_trans ?t (TunnelOpen 0 80 ''c0ffee.vpn'' demo_remote_world)
      (?t\<lparr>open_tunnels := insert 0 (open_tunnels ?t),
          tunnel_calls := tunnel_calls ?t @
            co_metrics (localConnect 80 ''c0ffee.vpn'' demo_remote_world (connect_start demo_guest_request))\<rparr>)"
    by (rule tunnel_open) (simp_all add: open_ok)
  moreover have "reach tunnels_start tunnel_trans ?t"
    by (rule reach_start) (simp add: tunnels_start_def)
  ultimately have "reach tunnels_start tunnel_trans
      (?t\<lparr>open_tunnels := insert 0 (open_tunnels ?t),
          tunnel_calls := tunnel_calls ?t @
            co_metrics (localConnect 80 ''c0ffee.vpn'' demo_remote_world (connect_start demo_guest_request))\<rparr>)"
    using reach_step by fast
  from active_tunnels_gauge [OF this] show ?thesis
    by (simp add: local_metrics [OF open_ok])
qed

end
