(* ===== verification/Service.thy ===== *)
theory Service
  imports Device
begin

text \<open>
  \<^verbatim>\<open>src/utils/service.ts\<close>: the registration of this VPN instance with the API, and its
  heartbeat.

  The answers of the API to the successive registration requests are a function from the number
  of the attempt; the registration loop retries for ever, so its result is an option.
\<close>

subsection \<open>Registration\<close>

record service_instance =
  service_id :: "int option"
  service_interval :: int

definition ServiceInstance_new :: service_instance where
  "ServiceInstance_new = \<lparr> service_id = None, service_interval = 10 * 1000 \<rparr>"

definition getId :: "service_instance \<Rightarrow> int result" where
  "getId s = (case service_id s of
     None \<Rightarrow> Inl (ServiceRegistrationError ''Not Registered'') | Some i \<Rightarrow> Inr i)"

definition set_id :: "int \<Rightarrow> service_instance \<Rightarrow> service_instance result" where
  "set_id i s =
     (if service_id s \<noteq> None then Inl (ServiceRegistrationError ''Already Registered'')
      else Inr (s\<lparr>service_id := Some i\<rparr>))"

text \<open>The tags that the class adds to a captured exception.\<close>

definition service_tags :: "service_instance \<Rightarrow> (string \<times> string) list" where
  "service_tags s = (case getId s of Inl _ \<Rightarrow> [] | Inr i \<Rightarrow> [(''instance_id'', show_int i)])"

text \<open>Settings, and the two requests: the registration carries the address of this instance, the
  heartbeat the id.  Both are authorised with the service's key.\<close>

record service_config =
  service_sentry_dsn :: "string option"
  service_api_key :: string
  trace_headers :: "(string \<times> string) list"

record service_post =
  post_ip_address :: "string option"
  post_headers :: "(string \<times> string) list"

record service_patch =
  patch_id :: int
  patch_is_alive :: bool
  patch_headers :: "(string \<times> string) list"

definition service_headers :: "service_config \<Rightarrow> (string \<times> string) list" where
  "service_headers cfg = getPassthrough (trace_headers cfg) (Some (''Bearer '' @ service_api_key cfg))"

definition register_request :: "service_config \<Rightarrow> string option \<Rightarrow> service_post" where
  "register_request cfg ipAddress = \<lparr> post_ip_address = ipAddress, post_headers = service_headers cfg \<rparr>"

definition service_capture ::
  "service_config \<Rightarrow> service_instance \<Rightarrow> js_error \<Rightarrow> string \<Rightarrow> capture list" where
  "service_capture cfg s err fingerprint =
     captureException (service_sentry_dsn cfg) (error_message err) fingerprint (service_tags s)"

text \<open>One attempt to register, on the API's answer: a failed request, or the member \<open>id\<close> of the
  response.\<close>

definition register_attempt ::
  "api_failure + int option \<Rightarrow> service_instance \<Rightarrow> service_instance result" where
  "register_attempt answer s =
     (case answer of
        Inl f \<Rightarrow> Inl (JsError (failure_message f))
      | Inr None \<Rightarrow> Inl (ServiceRegistrationError ''No service ID received on response'')
      | Inr (Some i) \<Rightarrow> set_id i s)"

text \<open>\<open>register\<close> from its \<open>k\<close>-th attempt on: the number of the attempt that succeeded, what was
  captured on the way, and the registered instance.\<close>

partial_function (option) service_register ::
  "service_config \<Rightarrow> string option \<Rightarrow> (nat \<Rightarrow> service_post \<Rightarrow> api_failure + int option) \<Rightarrow> nat \<Rightarrow>
   service_instance \<Rightarrow> (nat \<times> capture list \<times> service_instance) option" where
  "service_register cfg ipAddress answers k s =
     (case register_attempt (answers k (register_request cfg ipAddress)) s of
        Inr s' \<Rightarrow> Some (k, [], s')
      | Inl err \<Rightarrow>
          Option.bind (service_register cfg ipAddress answers (k + 1) s)
            (\<lambda>(j, caps, s'). Some (j, service_capture cfg s err ''service-registration-error'' @ caps, s')))"

text \<open>\<open>sendHeartbeat\<close>: the request, if one is made, the returned value and what was captured.
  \<open>getId\<close> is evaluated inside the \<open>try\<close>.\<close>

definition sendHeartbeat ::
  "service_config \<Rightarrow> (service_patch \<Rightarrow> api_failure + unit) \<Rightarrow> service_instance \<Rightarrow>
   service_patch option \<times> bool \<times> capture list" where
  "sendHeartbeat cfg patch s =
     (case getId s of
        Inl err \<Rightarrow> (None, False, service_capture cfg s err ''service-heartbeart-error'')
      | Inr i \<Rightarrow>
          let req = \<lparr> patch_id = i, patch_is_alive = True, patch_headers = service_headers cfg \<rparr>
          in (Some req,
              (case patch req of
                 Inl f \<Rightarrow> (False, service_capture cfg s (JsError (failure_message f)) ''service-heartbeart-error'')
               | Inr _ \<Rightarrow> (True, []))))"

text \<open>The first \<open>n\<close> rounds of \<open>scheduleHeartbeat\<close>, which starts the next round whether or not the
  heartbeat succeeded.\<close>

fun heartbeats ::
  "service_config \<Rightarrow> (nat \<Rightarrow> service_patch \<Rightarrow> api_failure + unit) \<Rightarrow> service_instance \<Rightarrow> nat \<Rightarrow>
   (service_patch option \<times> bool \<times> capture list) list" where
  "heartbeats cfg patch s 0 = []"
| "heartbeats cfg patch s (Suc n) = heartbeats cfg patch s n @ [sendHeartbeat cfg (patch n) s]"

text \<open>\<open>wrap\<close>: the callback runs once registration has returned, then the heartbeat starts.\<close>

definition service_wrap ::
  "service_config \<Rightarrow> string option \<Rightarrow> (nat \<Rightarrow> service_post \<Rightarrow> api_failure + int option) \<Rightarrow>
   (service_instance \<Rightarrow> 'a) \<Rightarrow> service_instance \<Rightarrow> ('a \<times> service_instance) option" where
  "service_wrap cfg ipAddress answers func s =
     map_option (\<lambda>(k, caps, s'). (func s', s')) (service_register cfg ipAddress answers 0 s)"

subsection \<open>Properties\<close>

text \<open>The outcome of the \<open>j\<close>-th attempt, and what a failed one captures.\<close>

abbreviation attempt_result where
  "attempt_result cfg ip answers s j \<equiv> register_attempt (answers j (register_request cfg ip)) s"

definition attempt_captures where
  "attempt_captures cfg ip answers s j =
     (case attempt_result cfg ip answers s j of
        Inl err \<Rightarrow> service_capture cfg s err ''service-registration-error'' | Inr _ \<Rightarrow> [])"

lemma register_from:
  "\<forall>j < n. \<exists>e. attempt_result cfg ip answers s (k + j) = Inl e \<Longrightarrow>
   service_register cfg ip answers k s =
     Option.bind (service_register cfg ip answers (k + n) s)
       (\<lambda>(j, caps, s'). Some (j, concat (map (attempt_captures cfg ip answers s) [k..<k + n]) @ caps, s'))"
proof (induction n arbitrary: k)
  case 0
  show ?case by (cases "service_register cfg ip answers k s") auto
next
  case (Suc n)
  obtain e where e: "attempt_result cfg ip answers s k = Inl e" using Suc.prems by force
  then have "service_register cfg ip answers k s =
      Option.bind (service_register cfg ip answers (k + 1) s)
        (\<lambda>(j, caps, s'). Some (j, attempt_captures cfg ip answers s k @ caps, s'))"
    by (subst service_register.simps) (simp add: attempt_captures_def)
  moreover have "\<forall>j < n. \<exists>e. attempt_result cfg ip answers s (k + 1 + j) = Inl e"
    using Suc.prems by auto
  moreover have "[k..<k + Suc n] = k # [k + 1..<k + 1 + n]" by (simp add: upt_rec)
  ultimately show ?case
    using Suc.IH [of "k + 1"]
    by (cases "service_register cfg ip answers (k + Suc n) s") auto
qed

lemma register_returns:
  "service_register cfg ip answers k s = Some r \<Longrightarrow>
   \<exists>j caps s'. r = (j, caps, s') \<and> attempt_result cfg ip answers s j = Inr s'"
  by (erule service_register.raw_induct [rotated])
    (auto split: sum.splits simp: bind_eq_Some_conv)

definition good_answer :: "api_failure + int option \<Rightarrow> bool" where
  "good_answer a \<longleftrightarrow> (case a of Inr (Some _) \<Rightarrow> True | _ \<Rightarrow> False)"

lemma register_attempt_fresh:
  "service_id s = None \<Longrightarrow> (\<exists>s'. register_attempt a s = Inr s') \<longleftrightarrow> good_answer a"
  by (auto simp: register_attempt_def good_answer_def set_id_def split: sum.splits option.splits)

lemma register_first:
  assumes "service_id s = None" "good_answer (answers k (register_request cfg ip))"
    and "\<And>j. j < k \<Longrightarrow> \<not> good_answer (answers j (register_request cfg ip))"
  obtains i where "answers k (register_request cfg ip) = Inr (Some i)"
    and "service_register cfg ip answers 0 s =
      Some (k, concat (map (attempt_captures cfg ip answers s) [0..<k]), s\<lparr>service_id := Some i\<rparr>)"
proof -
  obtain i where i: "answers k (register_request cfg ip) = Inr (Some i)"
    using assms(2) by (auto simp: good_answer_def split: sum.splits option.splits)
  have "\<exists>e. attempt_result cfg ip answers s (0 + j) = Inl e" if "j < k" for j
    using assms(3) [OF that] register_attempt_fresh [OF assms(1)]
    by (cases "attempt_result cfg ip answers s j") auto
  moreover have "service_register cfg ip answers k s = Some (k, [], s\<lparr>service_id := Some i\<rparr>)"
    using assms(1) by (subst service_register.simps) (simp add: i register_attempt_def set_id_def)
  ultimately have "service_register cfg ip answers 0 s =
      Some (k, concat (map (attempt_captures cfg ip answers s) [0..<k]), s\<lparr>service_id := Some i\<rparr>)"
    using register_from [where n = k and k = 0 and cfg = cfg and ip = ip and answers = answers and s = s] by simp
  with i show ?thesis by (rule that)
qed

lemma register_never:
  assumes "service_id s \<noteq> None \<or> (\<forall>k. \<not> good_answer (answers k (register_request cfg ip)))"
  shows "service_register cfg ip answers 0 s = None"
proof -
  have "attempt_result cfg ip answers s j \<noteq> Inr s'" for j s'
  proof (cases "service_id s = None")
    case True
    then show ?thesis using assms register_attempt_fresh [OF True] by blast
  next
    case False
    then show ?thesis
      by (auto simp: register_attempt_def set_id_def split: sum.splits option.splits)
  qed
  then show ?thesis
    using register_returns [of cfg ip answers 0 s] by (cases "service_register cfg ip answers 0 s") auto
qed

text \<open>C28. Registration of a fresh instance takes the id of the first answer that carries one, after
  exactly as many retries as there were failures before it, each of them captured, and keeps
  retrying for ever exactly when no answer ever carries one; an instance that is already
  registered never gets out of the retry loop, because the assignment of the id throws inside it.\<close>

theorem registration_retries:
  "(if service_id s = None \<and> (\<exists>k. good_answer (answers k (register_request cfg ip)))
    then \<exists>k i. k = (LEAST k. good_answer (answers k (register_request cfg ip))) \<and>
           answers k (register_request cfg ip) = Inr (Some i) \<and>
           service_register cfg ip answers 0 s =
             Some (k, concat (map (attempt_captures cfg ip answers s) [0..<k]), s\<lparr>service_id := Some i\<rparr>)
    else service_register cfg ip answers 0 s = None)"
proof (cases "service_id s = None \<and> (\<exists>k. good_answer (answers k (register_request cfg ip)))")
  case True
  define k where "k = (LEAST k. good_answer (answers k (register_request cfg ip)))"
  have ex: "\<exists>k. good_answer (answers k (register_request cfg ip))" using True by blast
  have "good_answer (answers k (register_request cfg ip))" unfolding k_def by (rule LeastI_ex [OF ex])
  moreover have "\<not> good_answer (answers j (register_request cfg ip))" if "j < k" for j
    using that not_less_Least unfolding k_def by blast
  ultimately obtain i where "answers k (register_request cfg ip) = Inr (Some i)"
    "service_register cfg ip answers 0 s =
      Some (k, concat (map (attempt_captures cfg ip answers s) [0..<k]), s\<lparr>service_id := Some i\<rparr>)"
    using register_first [of s answers k cfg ip] True by blast
  with True show ?thesis unfolding if_P [OF True] k_def by blast
next
  case False
  then show ?thesis unfolding if_not_P [OF False] by (intro register_never) auto
qed

text \<open>The callback that \<open>wrap\<close> runs sees a registered instance, and every heartbeat from then on
  is sent for the id that the API assigned, whether or not earlier heartbeats failed.\<close>

lemma heartbeats_id:
  assumes "getId s = Inr i"
  shows "map fst (heartbeats cfg patch s n) =
    replicate n (Some \<lparr> patch_id = i, patch_is_alive = True, patch_headers = service_headers cfg \<rparr>)"
  by (induction n) (simp_all add: assms sendHeartbeat_def Let_def replicate_append_same)

lemma wrap_runs_registered:
  assumes "service_wrap cfg ip answers func s = Some (a, s')"
  shows "\<exists>i k. getId s' = Inr i \<and> a = func s' \<and> answers k (register_request cfg ip) = Inr (Some i)"
proof -
  obtain k caps where reg: "service_register cfg ip answers 0 s = Some (k, caps, s')" and a: "a = func s'"
    using assms by (auto simp: service_wrap_def)
  then have "attempt_result cfg ip answers s k = Inr s'" using register_returns by fastforce
  then obtain i where "answers k (register_request cfg ip) = Inr (Some i)" "s' = s\<lparr>service_id := Some i\<rparr>"
    by (auto simp: register_attempt_def set_id_def split: sum.splits option.splits if_splits)
  then show ?thesis using a by (auto simp: getId_def)
qed

end
