(* ===== verification/Haproxy.thy ===== *)
theory Haproxy
  imports Vpn_Prelude
begin

text \<open>
  \<^verbatim>\<open>src/utils/haproxy.ts\<close>: the class \<open>HAProxy\<close>, which opens HAProxy's control socket, writes one
  line of commands and closes it again.  The socket is the environment: its events are an
  argument.  The commands are specified by what a reader of the control language finds in them.
\<close>

subsection \<open>The socket\<close>

datatype socket_event = SockConnect | SockError string

text \<open>\<open>connect\<close>: a promise, so the first event decides; \<open>None\<close> while there is none.\<close>

fun haproxy_connect :: "socket_event list \<Rightarrow> unit result option" where
  "haproxy_connect [] = None"
| "haproxy_connect (SockConnect # evs) = Some (Inr ())"
| "haproxy_connect (SockError msg # evs) = Some (Inl (JsError msg))"

subsection \<open>Commands\<close>

definition haproxy_preamble :: "string \<Rightarrow> string" where
  "haproxy_preamble name = ''set server '' @ name"

definition haproxy_register :: "string \<Rightarrow> int \<Rightarrow> string" where
  "haproxy_register name port =
     haproxy_preamble name @ '' addr 127.0.0.1 port '' @ show_int port @ '';'' @
     haproxy_preamble name @ '' state ready;''"

definition haproxy_drain :: "string \<Rightarrow> string" where
  "haproxy_drain name = haproxy_preamble name @ '' state drain;''"

text \<open>\<open>register\<close> and \<open>drain\<close>: what is written to the socket, and how the call ends, if it does.\<close>

definition haproxy_send :: "string \<Rightarrow> socket_event list \<Rightarrow> string list \<times> bool result option" where
  "haproxy_send cmd evs =
     (case haproxy_connect evs of
        None \<Rightarrow> ([], None)
      | Some (Inl e) \<Rightarrow> ([], Some (Inl e))
      | Some (Inr _) \<Rightarrow> ([cmd], Some (Inr True)))"

definition HAProxy_register :: "string \<Rightarrow> int \<Rightarrow> socket_event list \<Rightarrow> string list \<times> bool result option" where
  "HAProxy_register name port evs = haproxy_send (haproxy_register name port) evs"

definition HAProxy_drain :: "string \<Rightarrow> socket_event list \<Rightarrow> string list \<times> bool result option" where
  "HAProxy_drain name evs = haproxy_send (haproxy_drain name) evs"

subsection \<open>Reading the commands\<close>

text \<open>The control language: commands end with a semicolon, words are separated by spaces.\<close>

definition haproxy_words :: "string \<Rightarrow> string list list" where
  "haproxy_words line = map (split_char CHR '' '') (butlast (split_char CHR '';'' line))"

text \<open>The name under which an instance is known, and a name that is one word.\<close>

definition backend_name :: "int \<Rightarrow> string" where
  "backend_name i = ''vpn-workers/vpn'' @ show_int i"

definition one_word :: "string \<Rightarrow> bool" where
  "one_word w \<longleftrightarrow> CHR '' '' \<notin> set w \<and> CHR '';'' \<notin> set w"

lemma one_word_show_int: "one_word (show_int i)"
proof -
  have "CHR '' '' \<notin> set (show_nat n)" "CHR '';'' \<notin> set (show_nat n)" for n
    using show_nat_digits [of n] by (auto simp: is_digit_def)
  then show ?thesis by (simp add: one_word_def show_int_def)
qed

lemma one_word_backend: "one_word (backend_name i)"
  using one_word_show_int [of i] by (simp add: one_word_def backend_name_def)

lemma show_int_inj: "show_int i = show_int j \<longleftrightarrow> i = j"
proof
  assume "show_int i = show_int j"
  then have "parseInt (show_int i) = parseInt (show_int j)" by simp
  then show "i = j" by simp
qed simp

lemma words_of_command:
  assumes "ws \<noteq> []" "\<forall>w \<in> set ws. one_word w"
  shows "CHR '';'' \<notin> set (join '' '' ws)" and "split_char CHR '' '' (join '' '' ws) = ws"
proof -
  show "CHR '';'' \<notin> set (join '' '' ws)"
    using assms(2) by (induction ws rule: induct_list012) (auto simp: one_word_def)
  show "split_char CHR '' '' (join '' '' ws) = ws"
    using assms by (intro split_char_join) (auto simp: one_word_def)
qed

lemma haproxy_words_join:
  assumes "\<forall>ws \<in> set cmds. ws \<noteq> [] \<and> (\<forall>w \<in> set ws. one_word w)"
  shows "haproxy_words (concat (map (\<lambda>ws. join '' '' ws @ '';'') cmds)) = cmds"
proof -
  have "split_char CHR '';'' (concat (map (\<lambda>ws. join '' '' ws @ '';'') cmds)) = map (join '' '') cmds @ [[]]"
    using assms by (induction cmds) (simp_all add: split_char_append words_of_command)
  moreover have "map (split_char CHR '' '') (map (join '' '') cmds) = cmds"
    using assms words_of_command(2) by (induction cmds) simp_all
  ultimately show ?thesis by (simp add: haproxy_words_def)
qed

definition register_words :: "string \<Rightarrow> int \<Rightarrow> string list list" where
  "register_words name port =
     [[''set'', ''server'', name, ''addr'', ''127.0.0.1'', ''port'', show_int port],
      [''set'', ''server'', name, ''state'', ''ready'']]"

definition drain_words :: "string \<Rightarrow> string list list" where
  "drain_words name = [[''set'', ''server'', name, ''state'', ''drain'']]"

text \<open>HAProxy reads what is meant.  Read as the control language, the line that registers an instance
  is exactly two commands, its address and port and then that it is ready, and the line that
  drains it is exactly one; the commands name the instance by a word of its own, different for
  different instances; and a line is written once if the socket connects, and not at all, with
  the error as the result, if it fails.\<close>

theorem haproxy_commands_read:
  "haproxy_words (haproxy_register (backend_name i) port) = register_words (backend_name i) port \<and>
   haproxy_words (haproxy_drain (backend_name i)) = drain_words (backend_name i) \<and>
   (backend_name i = backend_name j \<longleftrightarrow> i = j) \<and>
   HAProxy_register name port (SockConnect # evs) = ([haproxy_register name port], Some (Inr True)) \<and>
   HAProxy_drain name (SockConnect # evs) = ([haproxy_drain name], Some (Inr True)) \<and>
   HAProxy_drain name (SockError msg # evs) = ([], Some (Inl (JsError msg)))"
proof (intro conjI)
  note word = one_word_backend [of i] one_word_show_int [of port]
  have "haproxy_register (backend_name i) port =
      concat (map (\<lambda>ws. join '' '' ws @ '';'') (register_words (backend_name i) port))"
    by (simp add: haproxy_register_def haproxy_preamble_def register_words_def)
  moreover have "\<forall>ws \<in> set (register_words (backend_name i) port). ws \<noteq> [] \<and> (\<forall>w \<in> set ws. one_word w)"
    using word by (auto simp: register_words_def one_word_def)
  ultimately show "haproxy_words (haproxy_register (backend_name i) port) = register_words (backend_name i) port"
    by (simp only: haproxy_words_join)
  have "haproxy_drain (backend_name i) =
      concat (map (\<lambda>ws. join '' '' ws @ '';'') (drain_words (backend_name i)))"
    by (simp add: haproxy_drain_def haproxy_preamble_def drain_words_def)
  moreover have "\<forall>ws \<in> set (drain_words (backend_name i)). ws \<noteq> [] \<and> (\<forall>w \<in> set ws. one_word w)"
    using word by (auto simp: drain_words_def one_word_def)
  ultimately show "haproxy_words (haproxy_drain (backend_name i)) = drain_words (backend_name i)"
    by (simp only: haproxy_words_join)
qed (simp_all add: backend_name_def show_int_inj HAProxy_register_def HAProxy_drain_def haproxy_send_def)

end
