(* ===== verification/Vpn_Worker.thy ===== *)
theory Vpn_Worker
  imports Metrics_Names Config Haproxy
begin

text \<open>
  \<^verbatim>\<open>src/vpn-worker.ts\<close>: the worker process that runs one OpenVPN instance.  It gives the
  instance its subnet and ports, turns the manager's events into metrics and messages for the
  primary process, and drains its clients on shutdown.

  The worker is a machine whose events are the manager's events, messages and signals, and the
  progress of a running drain: \<open>drainConnections\<close> is asynchronous, so other events happen between
  its steps.  Each run of it is a phase in the list \<open>drains\<close>; the iteration over \<open>clientCache\<close> is
  a position in that map, which is exact because entries are never removed.  Time is seconds of
  \<open>process.hrtime\<close>; a number that may be \<open>NaN\<close> is an option.
\<close>

subsection \<open>The subnet of an instance\<close>

definition getInstanceSubnet ::
  "netmask_lib \<Rightarrow> string \<Rightarrow> int \<Rightarrow> int \<Rightarrow> int \<Rightarrow> netmask option result option" where
  "getInstanceSubnet lib baseIp baseMask m inst =
     (case Netmask_new lib baseIp baseMask of
        Inl e \<Rightarrow> Some (Inl e)
      | Inr network \<Rightarrow>
          map_option (map_sum id (\<lambda>subnets.
            if 1 \<le> inst \<and> inst \<le> int (length subnets) then Some (subnets ! nat (inst - 1)) else None))
            (Netmask_split lib network m))"

subsection \<open>State and outputs\<close>

record client_entry =
  entry_uuid :: string
  entry_ts :: int
  entry_received :: "int option"
  entry_sent :: "int option"

datatype drain_phase = AwaitHaproxy | Killing nat rat | Signalled | Exited

record worker_state =
  clientCache :: "(int option \<times> client_entry) list"
  verbose :: bool
  drain_bound :: bool
  drains :: "drain_phase list"

record worker_config =
  worker_instance :: int
  worker_service :: int
  sigterm_timeout :: int
  max_drain_delay :: "int option"
  log_levels :: "string \<Rightarrow> nat option"
  has_send :: bool

datatype worker_out =
    WMetric metric_call
  | WWarning string
  | WNotice string
  | WEmerg string
  | WBitrate string "rat option" "rat option"
  | WLogged "string option" string
  | WHaproxy string
  | WExec string
  | WWait rat
  | WDrained int
  | WExit int

datatype worker_event =
    WEstablished "int option" "string list" client_env int
  | WBytecount "int option" "int option" "int option" int
  | WLog "string option" string
  | WProcessExit "int option" "int option" "string option"
  | WProcessError string
  | WToggle
  | WPrepareShutdown
  | WSignal
  | WDrain nat bool

definition worker_init :: "bool \<Rightarrow> worker_state" where
  "worker_init v = \<lparr> clientCache = [], verbose = v, drain_bound = True, drains = [] \<rparr>"

subsection \<open>Bandwidth metrics\<close>

text \<open>Subtraction of numbers that may be \<open>NaN\<close>.\<close>

definition nan_diff :: "int option \<Rightarrow> int option \<Rightarrow> int option" where
  "nan_diff a b = (case (a, b) of (Some x, Some y) \<Rightarrow> Some (x - y) | _ \<Rightarrow> None)"

definition bitrate :: "int option \<Rightarrow> int \<Rightarrow> rat option" where
  "bitrate d secs = map_option (\<lambda>x. of_int (x * 8) / of_int secs) d"

text \<open>The counts arrive as numbers and are printed and parsed again by \<open>parseInt\<close>.\<close>

definition writeBandwidthMetrics ::
  "worker_config \<Rightarrow> int option \<Rightarrow> int option \<Rightarrow> int option \<Rightarrow> int \<Rightarrow> worker_state \<Rightarrow>
   worker_state \<times> worker_out list" where
  "writeBandwidthMetrics cfg clientId rx tx now st =
     (case map_of (clientCache st) clientId of
        None \<Rightarrow>
          (st, [WWarning (''unable to write bandwidth metrics for unknown client_id='' @ show_number clientId)])
      | Some e \<Rightarrow>
          let bytesReceived = parseInt (show_number rx);
              bytesSent = parseInt (show_number tx);
              rxDelta = nan_diff bytesReceived (entry_received e);
              txDelta = nan_diff bytesSent (entry_sent e);
              timeDelta = now - entry_ts e;
              e' = e\<lparr>entry_received := bytesReceived, entry_sent := bytesSent,
                     entry_ts := entry_ts e + timeDelta\<rparr>
          in (st\<lparr>clientCache := AList.update clientId e' (clientCache st)\<rparr>,
              [WMetric (MInc RxBytes (map_option of_int rxDelta)),
               WMetric (MInc TxBytes (map_option of_int txDelta))] @
              (if timeDelta > 0 \<and> has_send cfg
               then [WBitrate (entry_uuid e) (bitrate rxDelta timeDelta) (bitrate txDelta timeDelta)]
               else [])))"

subsection \<open>Draining\<close>

text \<open>Starting a drain: the closure that the variable \<open>drainConnections\<close> holds at first, and that
  the signal handlers keep.  It rebinds the variable to a function that does nothing and begins to
  connect to HAProxy; nothing is written before the socket has connected.\<close>

definition start_drain :: "worker_config \<Rightarrow> worker_state \<Rightarrow> worker_state \<times> worker_out list" where
  "start_drain cfg st = (st\<lparr>drain_bound := False, drains := drains st @ [AwaitHaproxy]\<rparr>, [])"

text \<open>The end of the connection attempt: what is written to HAProxy's socket, and whether the call
  was resolved.\<close>

definition drain_haproxy :: "worker_config \<Rightarrow> bool \<Rightarrow> worker_out list \<times> bool" where
  "drain_haproxy cfg ok =
     (case HAProxy_drain (backend_name (worker_instance cfg))
             [if ok then SockConnect else SockError ''connect ECONNREFUSED /var/run/haproxy.sock''] of
        (cmds, Some (Inr _)) \<Rightarrow> (map WHaproxy cmds, True)
      | (cmds, _) \<Rightarrow> (map WHaproxy cmds, False))"

definition drain_delay :: "worker_config \<Rightarrow> nat \<Rightarrow> rat" where
  "drain_delay cfg clientCount =
     (let even_delay = of_int (sigterm_timeout cfg) / of_nat clientCount
      in case max_drain_delay cfg of None \<Rightarrow> even_delay | Some d \<Rightarrow> min (of_int d) even_delay)"

definition drain_done :: "worker_config \<Rightarrow> worker_out list" where
  "drain_done cfg =
     (if has_send cfg then [WDrained (worker_instance cfg)] else []) @
     [WWait (of_int (sigterm_timeout cfg))]"

text \<open>One step of a drain.  From \<open>AwaitHaproxy\<close> it is what follows once HAProxy has been told.  The
  pauses are the ones that the code asks for; Node rounds the delay of a timer to whole milliseconds.\<close>

definition drain_phase_step ::
  "worker_config \<Rightarrow> worker_state \<Rightarrow> drain_phase \<Rightarrow> drain_phase \<times> worker_out list" where
  "drain_phase_step cfg st phase =
     (case phase of
        AwaitHaproxy \<Rightarrow>
          if clientCache st \<noteq> [] then (Killing 0 (drain_delay cfg (length (clientCache st))), [])
          else (Signalled, drain_done cfg)
      | Killing pos delay \<Rightarrow>
          if pos < length (clientCache st)
          then (Killing (pos + 1) delay,
                [WExec (killClient (entry_uuid (snd (clientCache st ! pos)))), WWait delay])
          else (Signalled, drain_done cfg)
      | Signalled \<Rightarrow> (Exited, [WExit 0])
      | Exited \<Rightarrow> (Exited, []))"

text \<open>\<open>ok\<close> is whether the connection to HAProxy succeeds.  A drain whose connection fails is
  rejected; nothing handles the rejection, so Node raises it as an uncaught exception, whose
  handler starts a drain.\<close>

definition drain_step ::
  "worker_config \<Rightarrow> nat \<Rightarrow> bool \<Rightarrow> worker_state \<Rightarrow> worker_state \<times> worker_out list" where
  "drain_step cfg i ok st =
     (if length (drains st) \<le> i then (st, [])
      else let (written, resolved) =
                 (if drains st ! i = AwaitHaproxy then drain_haproxy cfg ok else ([], True))
           in if resolved
              then let (phase, outs) = drain_phase_step cfg st (drains st ! i)
                   in (st\<lparr>drains := (drains st)[i := phase]\<rparr>, written @ outs)
              else let (st', outs) = start_drain cfg (st\<lparr>drains := (drains st)[i := Exited]\<rparr>)
                   in (st', written @ outs))"

subsection \<open>Event handlers\<close>

text \<open>\<open>client:established\<close>.  The manager passes further event arguments before the environment, so
  with one of them \<open>data\<close> is a string.  Without a common name \<open>flatstr\<close> throws, after the log
  line; the exception is uncaught.\<close>

definition established_name :: "string list \<Rightarrow> client_env \<Rightarrow> string option" where
  "established_name as env =
     (if as \<noteq> [] then None else case map_of env ''common_name'' of Some v \<Rightarrow> v | None \<Rightarrow> None)"

definition on_established ::
  "worker_config \<Rightarrow> int option \<Rightarrow> string list \<Rightarrow> client_env \<Rightarrow> int \<Rightarrow> worker_state \<Rightarrow>
   worker_state \<times> worker_out list" where
  "on_established cfg clientId as env now st =
     (case established_name as env of
        None \<Rightarrow> start_drain cfg st
      | Some cn \<Rightarrow>
          (st\<lparr>clientCache := AList.update clientId
                \<lparr> entry_uuid = cn, entry_ts = now, entry_received = Some 0, entry_sent = Some 0 \<rparr>
                (clientCache st)\<rparr>, []))"

text \<open>\<open>logger.levels[level] <= logger.levels.warning\<close>, which is false when a level is undefined.\<close>

definition on_log ::
  "worker_config \<Rightarrow> string option \<Rightarrow> string \<Rightarrow> worker_state \<Rightarrow> worker_state \<times> worker_out list" where
  "on_log cfg level message st =
     (if verbose st \<or>
         (case (Option.bind level (log_levels cfg), log_levels cfg ''warning'') of
            (Some l, Some w) \<Rightarrow> l \<le> w | _ \<Rightarrow> False)
      then (st, [WLogged level message]) else (st, []))"

text \<open>\<open>fatalErrorHandler\<close>, and the message for the end of the OpenVPN process: \<open>None\<close> is
  \<open>undefined\<close> for the process id and \<open>null\<close> for the code and the signal.\<close>

definition fatalErrorHandler :: "string \<Rightarrow> worker_state \<Rightarrow> worker_state \<times> worker_out list" where
  "fatalErrorHandler message st = (st, [WEmerg message, WExit 1])"

definition process_exit_message :: "int option \<Rightarrow> int option \<Rightarrow> string option \<Rightarrow> string" where
  "process_exit_message pid code sig =
     ''openvpn process (pid='' @ (case pid of Some p \<Rightarrow> show_int p | None \<Rightarrow> ''undefined'') @ '')'' @
     (case code of
        Some c \<Rightarrow> '' exited (code='' @ show_int c @ '')''
      | None \<Rightarrow> (case sig of Some s \<Rightarrow> '' terminated (signal='' @ s @ '')'' | None \<Rightarrow> '' exited''))"

definition on_toggle :: "worker_state \<Rightarrow> worker_state \<times> worker_out list" where
  "on_toggle st =
     (st\<lparr>verbose := \<not> verbose st\<rparr>,
      [WNotice (''verbose logging '' @ (if \<not> verbose st then ''enabled'' else ''disabled''))])"

text \<open>The \<open>prepareShutdown\<close> message calls whatever the variable \<open>drainConnections\<close> holds now.\<close>

definition on_prepare_shutdown :: "worker_config \<Rightarrow> worker_state \<Rightarrow> worker_state \<times> worker_out list" where
  "on_prepare_shutdown cfg st = (if drain_bound st then start_drain cfg st else (st, []))"

fun worker_step :: "worker_config \<Rightarrow> worker_state \<Rightarrow> worker_event \<Rightarrow> worker_state \<times> worker_out list" where
  "worker_step cfg st (WEstablished c as env now) = on_established cfg c as env now st"
| "worker_step cfg st (WBytecount c rx tx now) = writeBandwidthMetrics cfg c rx tx now st"
| "worker_step cfg st (WLog level message) = on_log cfg level message st"
| "worker_step cfg st (WProcessExit pid code sig) = fatalErrorHandler (process_exit_message pid code sig) st"
| "worker_step cfg st (WProcessError err) = fatalErrorHandler err st"
| "worker_step cfg st WToggle = on_toggle st"
| "worker_step cfg st WPrepareShutdown = on_prepare_shutdown cfg st"
| "worker_step cfg st WSignal = start_drain cfg st"
| "worker_step cfg st (WDrain i ok) = drain_step cfg i ok st"

text \<open>The listeners on the manager: which handlers run, at time \<open>now\<close>, when the manager emits an
  event.  Of the client events only \<open>client:established\<close> has one.\<close>

fun listeners :: "int option \<Rightarrow> int \<Rightarrow> vpn_event \<Rightarrow> worker_event list" where
  "listeners pid now (EvLog level message) = [WLog level message]"
| "listeners pid now (EvClient eventName c as env) =
     (if eventName = ''established'' then [WEstablished c as env now] else [])"
| "listeners pid now (EvBytecount c rx tx) = [WBytecount c rx tx now]"
| "listeners pid now (EvProcessExit code sig) = [WProcessExit pid code sig]"
| "listeners pid now (EvProcessError err) = [WProcessError err]"
| "listeners pid now EvManagerConnect = []"

subsection \<open>Start-up\<close>

definition worker_ports :: "config \<Rightarrow> int \<Rightarrow> int \<times> int" where
  "worker_ports c inst = (VPN_BASE_PORT c + inst, VPN_BASE_MANAGEMENT_PORT c + inst)"

datatype startup_action = StartOpenvpn | ConnectConsole | Exec string | RegisterHaproxy string | FatalExit

text \<open>The actions of the start-up sequence, in order.\<close>

definition startup_plan :: "config \<Rightarrow> int \<Rightarrow> startup_action list" where
  "startup_plan c inst =
     [StartOpenvpn, ConnectConsole, Exec (enableBytecountReporting (VPN_BYTECOUNT_INTERVAL c)),
      Exec releaseHold,
      RegisterHaproxy (haproxy_register (backend_name inst) (fst (worker_ports c inst)))]"

text \<open>The \<open>try\<close> block: each action is awaited before the next; \<open>works k\<close> is whether the \<open>k\<close>-th
  succeeds.  The first failure ends the process.\<close>

fun run_startup :: "(nat \<Rightarrow> bool) \<Rightarrow> nat \<Rightarrow> startup_action list \<Rightarrow> startup_action list" where
  "run_startup works k [] = []"
| "run_startup works k (a # as) =
     (if works k then a # run_startup works (k + 1) as else [a, FatalExit])"

subsection \<open>Subnets of the instances\<close>

text \<open>The subnet of instance \<open>i\<close> when the base network splits.\<close>

lemma getInstanceSubnet_at:
  assumes "netmask_lib_ok lib" "block_in_range a b" "b \<le> m" "m \<le> 29" "1 \<le> i" "i \<le> 2 ^ (m - b)"
  shows "getInstanceSubnet lib (lib_long2ip lib a) (int b) (int m) i =
    Some (Inr (Some (netmask_at lib (a + (i - 1) * 2 ^ (32 - m)) m)))"
proof -
  have new: "Netmask_new lib (lib_long2ip lib a) (int b) = Inr (netmask_at lib a b)"
    using assms by (intro Netmask_new_at) (auto simp: block_in_range_def)
  have "nat (i - 1) < 2 ^ (m - b)" using assms(5,6) by (simp add: nat_less_iff)
  moreover have "int (nat (i - 1)) = i - 1" using assms(5) by simp
  ultimately show ?thesis
    using assms(5,6) by (simp add: getInstanceSubnet_def new split_at [OF assms(1-4)])
qed

lemma sub_block_inside:
  assumes "block_in_range a b" "b \<le> m" "m \<le> 29" "1 \<le> i" "i \<le> (2::int) ^ (m - b)"
  shows "a + (i - 1) * 2 ^ (32 - m) + 2 ^ (32 - m) \<le> a + 2 ^ (32 - b)"
proof -
  have "i * 2 ^ (32 - m) \<le> (2::int) ^ (m - b) * 2 ^ (32 - m)"
    using assms(5) by (intro mult_right_mono) auto
  then show ?thesis using sub_block_facts(1) [OF assms(1-3)] by (simp add: algebra_simps)
qed

lemma distinct_sub_blocks:
  fixes s :: int
  assumes "i \<noteq> j" "0 < s"
  shows "{a + (i - 1) * s ..< a + (i - 1) * s + s} \<inter> {a + (j - 1) * s ..< a + (j - 1) * s + s} = {}"
proof -
  have "u + s \<le> v" if "k < l" "u = a + (k - 1) * s" "v = a + (l - 1) * s" for k l u v :: int
  proof -
    have "(k - 1 + 1) * s \<le> (l - 1) * s" using that(1) assms(2) by (intro mult_right_mono) auto
    then show ?thesis unfolding that(2,3) by (simp add: algebra_simps)
  qed
  then have "a + (i - 1) * s + s \<le> a + (j - 1) * s \<or> a + (j - 1) * s + s \<le> a + (i - 1) * s"
    using assms(1) by (metis linorder_neqE)
  then show ?thesis by auto
qed

text \<open>Every configured instance has a subnet of its own.  When the configuration loads with the
  default instance subnet size, the base network is an aligned block \<open>a/b\<close> and the instance
  prefix length \<open>m\<close> leaves at least three usable addresses, each of the instances \<open>1, ...,
  VPN_INSTANCE_COUNT\<close> is given a subnet; it lies inside the base network, its client address
  pool, from its third to its last address, lies inside the subnet, and the subnets of two
  different instances have no address in common.\<close>

theorem instance_subnets_disjoint:
  assumes "netmask_lib_ok lib" and "load_config env host = Inr c"
    and "env_int env ''VPN_INSTANCE_SUBNET_BITMASK'' = Inr None"
    and "VPN_BASE_IP c = lib_long2ip lib a" and "VPN_BASE_MASK c = int b" and "block_in_range a b"
    and "VPN_INSTANCE_SUBNET_BITMASK c = Some (int m)" and "m \<le> 29"
    and "1 \<le> i" and "i \<le> VPN_INSTANCE_COUNT c" and "1 \<le> j" and "j \<le> VPN_INSTANCE_COUNT c"
  shows "\<exists>s t. getInstanceSubnet lib (VPN_BASE_IP c) (VPN_BASE_MASK c) (int m) i = Some (Inr (Some s)) \<and>
    getInstanceSubnet lib (VPN_BASE_IP c) (VPN_BASE_MASK c) (int m) j = Some (Inr (Some t)) \<and>
    a \<le> netLong s \<and> netLong s + net_size s \<le> a + 2 ^ (32 - b) \<and>
    third_addr s = lib_long2ip lib (netLong s + 3) \<and>
    last_addr s = lib_long2ip lib (netLong s + net_size s - 2) \<and> 8 \<le> net_size s \<and>
    (i \<noteq> j \<longrightarrow>
       {netLong s ..< netLong s + net_size s} \<inter> {netLong t ..< netLong t + net_size t} = {})"
proof -
  have bm: "b \<le> m" and count: "VPN_INSTANCE_COUNT c \<le> 2 ^ (m - b)"
    using default_bitmask_bounds [OF assms(2,3)] assms(5,7,9,10) by (auto simp: nat_diff_distrib)
  let ?s = "\<lambda>i. netmask_at lib (a + (i - 1) * 2 ^ (32 - m)) m"
  have sub: "getInstanceSubnet lib (VPN_BASE_IP c) (VPN_BASE_MASK c) (int m) k = Some (Inr (Some (?s k)))"
    if "1 \<le> k" "k \<le> VPN_INSTANCE_COUNT c" for k
    using getInstanceSubnet_at [OF assms(1,6) bm assms(8) that(1)] that(2) count assms(4,5) by simp
  have "a \<le> a + (i - 1) * 2 ^ (32 - m)" using assms(9) by simp
  moreover have "a + (i - 1) * 2 ^ (32 - m) + 2 ^ (32 - m) \<le> a + 2 ^ (32 - b)"
    using sub_block_inside [OF assms(6) bm assms(8,9)] assms(10) count by linarith
  ultimately show ?thesis
    using sub [OF assms(9,10)] sub [OF assms(11,12)] pow_8_le [OF assms(8)]
      distinct_sub_blocks [of i j "2 ^ (32 - m)" a]
    by (intro exI [of _ "?s i"] exI [of _ "?s j"]) (simp add: add.assoc)
qed

theorem instance_subnets_disjoint_witness:
  "\<exists>(s :: netmask) (t :: netmask).
     getInstanceSubnet quad_lib ''100.64.0.0'' 10 16 1 = Some (Inr (Some s)) \<and>
     getInstanceSubnet quad_lib ''100.64.0.0'' 10 16 6 = Some (Inr (Some t)) \<and>
     {netLong s ..< netLong s + net_size s} \<inter> {netLong t ..< netLong t + net_size t} = {}"
proof -
  have facts: "VPN_BASE_IP demo_loaded = ''100.64.0.0''" "VPN_BASE_MASK demo_loaded = 10"
      "VPN_INSTANCE_SUBNET_BITMASK demo_loaded = Some 16" "VPN_INSTANCE_COUNT demo_loaded = 6"
      "env_int demo_env ''VPN_INSTANCE_SUBNET_BITMASK'' = Inr None"
      "lib_long2ip quad_lib 1681915904 = ''100.64.0.0''"
    by code_simp+
  have "block_in_range 1681915904 10" by (simp add: block_in_range_def)
  from instance_subnets_disjoint [OF quad_lib_ok demo_loads facts(5) _ _ this, of 16 1 6]
  show ?thesis using facts by auto
qed

subsection \<open>Byte counts\<close>

definition cache_sum :: "(client_entry \<Rightarrow> int option) \<Rightarrow> worker_state \<Rightarrow> rat" where
  "cache_sum f st = (\<Sum>(k, e) \<leftarrow> clientCache st. of_int (the (f e)))"

definition counts_ok :: "worker_state \<Rightarrow> bool" where
  "counts_ok st \<longleftrightarrow> distinct (map fst (clientCache st)) \<and>
     list_all (\<lambda>x. entry_received (snd x) \<noteq> None \<and> entry_sent (snd x) \<noteq> None) (clientCache st)"

text \<open>What is assumed of OpenVPN's events: sessions start under client ids not seen before, and byte
  counts are numbers.  Everything else may happen in between.\<close>

fun traffic :: "int option list \<Rightarrow> worker_event list \<Rightarrow> bool" where
  "traffic known [] = True"
| "traffic known (WEstablished c as env now # evs) =
     (if established_name as env = None then traffic known evs
      else c \<notin> set known \<and> traffic (c # known) evs)"
| "traffic known (WBytecount c rx tx now # evs) = (rx \<noteq> None \<and> tx \<noteq> None \<and> traffic known evs)"
| "traffic known (e # evs) = traffic known evs"

fun out_metrics :: "worker_out list \<Rightarrow> metric_call list" where
  "out_metrics [] = []"
| "out_metrics (WMetric c # os) = c # out_metrics os"
| "out_metrics (_ # os) = out_metrics os"

lemma out_metrics_append [simp]: "out_metrics (a @ b) = out_metrics a @ out_metrics b"
  by (induction a rule: out_metrics.induct) auto

lemma sum_update:
  assumes "distinct (map fst al)" "map_of al k = Some e"
  shows "(\<Sum>(k, e) \<leftarrow> AList.update k e' al. f e) = (\<Sum>(k, e) \<leftarrow> al. f e) - f e + (f e' :: rat)"
  using assms
proof (induction al)
  case (Cons x al)
  then show ?case by (cases x) (auto split: if_splits)
qed simp

lemma bytecount_effect:
  assumes "counts_ok st" "rx \<noteq> None" "tx \<noteq> None"
    and "writeBandwidthMetrics cfg c rx tx now st = (st', outs)"
  shows "counts_ok st' \<and> map fst (clientCache st') = map fst (clientCache st) \<and>
    metric_total RxBytes (out_metrics outs) = cache_sum entry_received st' - cache_sum entry_received st \<and>
    metric_total TxBytes (out_metrics outs) = cache_sum entry_sent st' - cache_sum entry_sent st"
proof (cases "map_of (clientCache st) c")
  case None
  then show ?thesis using assms by (auto simp: writeBandwidthMetrics_def metric_total_def)
next
  case (Some e)
  obtain r t where rt: "rx = Some r" "tx = Some t" using assms by blast
  have "(c, e) \<in> set (clientCache st)" using Some by (rule map_of_SomeD)
  then obtain r0 t0 where e: "entry_received e = Some r0" "entry_sent e = Some t0"
    using assms(1) by (fastforce simp: counts_ok_def list_all_iff)
  have dist: "distinct (map fst (clientCache st))" using assms(1) by (simp add: counts_ok_def)
  let ?e = "e\<lparr>entry_received := Some r, entry_sent := Some t, entry_ts := now\<rparr>"
  have st': "st' = st\<lparr>clientCache := AList.update c ?e (clientCache st)\<rparr>"
    and outs: "out_metrics outs = [MInc RxBytes (Some (of_int (r - r0))), MInc TxBytes (Some (of_int (t - t0)))]"
    using assms(4) Some rt e by (auto simp: writeBandwidthMetrics_def Let_def nan_diff_def)
  have keys: "map fst (clientCache st') = map fst (clientCache st)"
    unfolding st' using \<open>(c, e) \<in> set (clientCache st)\<close> by (force simp: update_keys)
  have "counts_ok st'"
    unfolding counts_ok_def keys using assms(1) dist
    by (fastforce simp: st' counts_ok_def list_all_iff dest: set_update_sub)
  with keys show ?thesis
    by (simp add: cache_sum_def st' sum_update [OF dist Some] outs metric_total_def e)
qed

lemma established_effect:
  assumes "counts_ok st" "c \<notin> fst ` set (clientCache st)" "established_name as env \<noteq> None"
    and "on_established cfg c as env now st = (st', outs)"
  shows "counts_ok st' \<and> map fst (clientCache st') = map fst (clientCache st) @ [c] \<and> outs = [] \<and>
    cache_sum entry_received st' = cache_sum entry_received st \<and>
    cache_sum entry_sent st' = cache_sum entry_sent st"
  using assms by (auto simp: on_established_def update_fresh counts_ok_def cache_sum_def)

lemma traffic_set: "set known = set known' \<Longrightarrow> traffic known evs = traffic known' evs"
proof (induction evs arbitrary: known known')
  case (Cons ev evs)
  have cons: "traffic (c # known) evs = traffic (c # known') evs" for c
    using Cons.IH [of "c # known" "c # known'"] Cons.prems by simp
  note plain = Cons.IH [OF Cons.prems]
  show ?case
  proof (cases ev)
    case (WEstablished c as env now)
    show ?thesis unfolding WEstablished traffic.simps Cons.prems cons [of c] plain ..
  next
    case (WBytecount c rx tx now)
    show ?thesis unfolding WBytecount traffic.simps plain ..
  qed (simp_all only: traffic.simps plain)
qed simp

text \<open>Every other event leaves the clients and the counters alone.\<close>

definition accounting :: "worker_event \<Rightarrow> bool" where
  "accounting ev \<longleftrightarrow> (\<exists>c rx tx now. ev = WBytecount c rx tx now) \<or>
     (\<exists>c as env now. ev = WEstablished c as env now \<and> established_name as env \<noteq> None)"

definition drain_command :: "worker_config \<Rightarrow> worker_out" where
  "drain_command cfg = WHaproxy (haproxy_drain (backend_name (worker_instance cfg)))"

lemma drain_haproxy_ends [simp]:
  "drain_haproxy cfg True = ([drain_command cfg], True)" "drain_haproxy cfg False = ([], False)"
  by (simp_all add: drain_haproxy_def HAProxy_drain_def haproxy_send_def drain_command_def)

text \<open>What a step of a drain puts out: the command for HAProxy is the first of it.\<close>

definition phase_outs :: "worker_config \<Rightarrow> worker_state \<Rightarrow> drain_phase \<Rightarrow> worker_out list" where
  "phase_outs cfg st p =
     (if p = AwaitHaproxy then [drain_command cfg] else []) @ snd (drain_phase_step cfg st p)"

lemma drain_step_moves:
  assumes "i < length (drains st)" "drains st ! i \<noteq> AwaitHaproxy \<or> ok"
  shows "drain_step cfg i ok st =
    (st\<lparr>drains := (drains st)[i := fst (drain_phase_step cfg st (drains st ! i))]\<rparr>,
     phase_outs cfg st (drains st ! i))"
  using assms by (auto simp: drain_step_def phase_outs_def split: prod.splits)

lemma drain_step_rejected:
  assumes "i < length (drains st)" "drains st ! i = AwaitHaproxy"
  shows "drain_step cfg i False st = start_drain cfg (st\<lparr>drains := (drains st)[i := Exited]\<rparr>)"
  using assms by (simp add: drain_step_def start_drain_def)

lemma drain_step_missing: "length (drains st) \<le> i \<Longrightarrow> drain_step cfg i ok st = (st, [])"
  by (simp add: drain_step_def)

text \<open>The three ways in which a step of a drain can go.\<close>

lemma drain_step_cases:
  obtains (missing) "length (drains st) \<le> i" "drain_step cfg i ok st = (st, [])"
  | (rejected) "i < length (drains st)" "drains st ! i = AwaitHaproxy" "\<not> ok"
      "drain_step cfg i ok st = start_drain cfg (st\<lparr>drains := (drains st)[i := Exited]\<rparr>)"
  | (moves) "i < length (drains st)" "drains st ! i \<noteq> AwaitHaproxy \<or> ok"
      "drain_step cfg i ok st =
         (st\<lparr>drains := (drains st)[i := fst (drain_phase_step cfg st (drains st ! i))]\<rparr>,
          phase_outs cfg st (drains st ! i))"
  using drain_step_missing [of st i cfg ok] drain_step_rejected [of i st cfg]
    drain_step_moves [of i st ok cfg] by (metis (full_types) not_le)

lemma start_drain_quiet:
  "clientCache (fst (start_drain cfg st)) = clientCache st \<and> out_metrics (snd (start_drain cfg st)) = []"
  by (simp add: start_drain_def)

lemma drain_phase_quiet: "out_metrics (phase_outs cfg st p) = []"
  by (cases p) (simp_all add: phase_outs_def drain_command_def drain_phase_step_def drain_done_def)

lemma other_event_quiet:
  assumes "\<not> accounting ev" "worker_step cfg st ev = (st', outs)"
  shows "clientCache st' = clientCache st \<and> out_metrics outs = []"
proof (cases ev)
  case (WEstablished c as env now)
  then show ?thesis
    using assms start_drain_quiet [of cfg st] by (auto simp: accounting_def on_established_def)
next
  case (WDrain i ok)
  then show ?thesis
    using assms(2) drain_phase_quiet [of cfg st "drains st ! i"]
    by (cases rule: drain_step_cases [of st i cfg ok]) (auto simp: start_drain_def)
qed (use assms start_drain_quiet [of cfg st] in
  \<open>auto simp: accounting_def on_log_def on_toggle_def on_prepare_shutdown_def fatalErrorHandler_def
    split: if_splits\<close>)

lemma traffic_skip: "\<not> accounting ev \<Longrightarrow> traffic known (ev # evs) = traffic known evs"
  by (cases ev) (auto simp: accounting_def)

text \<open>One event of the traffic: the counters move with the sums of the cache.\<close>

lemma traffic_step:
  assumes "counts_ok st" "traffic (map fst (clientCache st)) (ev # evs)"
    and step: "worker_step cfg st ev = (st', outs)"
  shows "counts_ok st' \<and> traffic (map fst (clientCache st')) evs \<and>
    metric_total RxBytes (out_metrics outs) = cache_sum entry_received st' - cache_sum entry_received st \<and>
    metric_total TxBytes (out_metrics outs) = cache_sum entry_sent st' - cache_sum entry_sent st"
proof (cases "accounting ev")
  case False
  then have "clientCache st' = clientCache st" "out_metrics outs = []"
    using other_event_quiet step by blast+
  then show ?thesis
    using assms(1,2) traffic_skip [OF False] by (simp add: counts_ok_def cache_sum_def metric_total_def)
next
  case True
  then consider (est) c as env now where "ev = WEstablished c as env now" "established_name as env \<noteq> None"
    | (count) c rx tx now where "ev = WBytecount c rx tx now"
    unfolding accounting_def by blast
  then show ?thesis
  proof cases
    case (est c as env now)
    then have "counts_ok st' \<and> map fst (clientCache st') = map fst (clientCache st) @ [c] \<and> outs = [] \<and>
        cache_sum entry_received st' = cache_sum entry_received st \<and>
        cache_sum entry_sent st' = cache_sum entry_sent st"
      using assms(2) step established_effect [OF assms(1), of c as env cfg now st' outs] by auto
    moreover have "traffic (map fst (clientCache st) @ [c]) evs"
      using assms(2) est
        traffic_set [of "c # map fst (clientCache st)" "map fst (clientCache st) @ [c]" evs] by simp
    ultimately show ?thesis by (simp add: metric_total_def)
  next
    case (count c rx tx now)
    then show ?thesis
      using assms(2) step bytecount_effect [OF assms(1), of rx tx cfg c now st' outs] by auto
  qed
qed

lemma traffic_effect:
  assumes "counts_ok st" "traffic (map fst (clientCache st)) evs"
    and "run_events (worker_step cfg) st evs = (st', outs)"
  shows "counts_ok st' \<and>
    metric_total RxBytes (out_metrics outs) = cache_sum entry_received st' - cache_sum entry_received st \<and>
    metric_total TxBytes (out_metrics outs) = cache_sum entry_sent st' - cache_sum entry_sent st"
  using assms
proof (induction evs arbitrary: st outs)
  case Nil
  then show ?case by (auto simp: metric_total_def)
next
  case (Cons ev evs)
  obtain st1 o1 where step: "worker_step cfg st ev = (st1, o1)" by fastforce
  obtain o2 where rest: "run_events (worker_step cfg) st1 evs = (st', o2)" and outs: "outs = o1 @ o2"
    using Cons.prems(3) step by (auto split: prod.splits)
  from traffic_step [OF Cons.prems(1,2) step] Cons.IH [of st1 o2] rest show ?case by (simp add: outs)
qed

text \<open>No byte is counted twice and none is lost: over any interleaving of new sessions and byte
  counts of any number of clients, and of log lines, messages, signals and drains, what is added to the received-bytes counter is exactly the
  increase of the sum of the clients' latest counts, and likewise for sent bytes.\<close>

theorem byte_counters_telescope:
  assumes "counts_ok st" and "traffic (map fst (clientCache st)) evs"
    and "run_events (worker_step cfg) st evs = (st', outs)"
  shows "metric_total RxBytes (out_metrics outs) =
      cache_sum entry_received st' - cache_sum entry_received st \<and>
    metric_total TxBytes (out_metrics outs) = cache_sum entry_sent st' - cache_sum entry_sent st"
  using traffic_effect [OF assms] by blast

definition demo_worker :: worker_config where
  "demo_worker =
     \<lparr> worker_instance = 1, worker_service = 7, sigterm_timeout = 10000, max_drain_delay = Some 120,
       log_levels = (\<lambda>l. map_of [(''emerg'', 0), (''error'', 3), (''warning'', 4), (''notice'', 5)] l),
       has_send = True \<rparr>"

definition demo_traffic :: "worker_event list" where
  "demo_traffic =
     [WEstablished (Some 0) [] [(''common_name'', Some ''abc'')] 100,
      WBytecount (Some 0) (Some 50) (Some 5) 110,
      WEstablished (Some 1) [] [(''common_name'', Some ''def'')] 115,
      WBytecount (Some 1) (Some 7) (Some 7) 120,
      WToggle, WSignal,
      WBytecount (Some 0) (Some 80) (Some 9) 120]"

theorem byte_counters_telescope_witness:
  "metric_total RxBytes (out_metrics (snd (run_events (worker_step demo_worker) (worker_init False) demo_traffic))) = 87"
proof -
  let ?r = "run_events (worker_step demo_worker) (worker_init False) demo_traffic"
  have "counts_ok (worker_init False)" by (simp add: counts_ok_def worker_init_def)
  moreover have "traffic (map fst (clientCache (worker_init False))) demo_traffic" by code_simp
  moreover have "?r = (fst ?r, snd ?r)" by simp
  ultimately have "metric_total RxBytes (out_metrics (snd ?r)) =
      cache_sum entry_received (fst ?r) - cache_sum entry_received (worker_init False)"
    using byte_counters_telescope by blast
  also have "\<dots> = 87" by code_simp
  finally show ?thesis .
qed

subsection \<open>The drain schedule\<close>

definition kill_outs :: "rat \<Rightarrow> (int option \<times> client_entry) list \<Rightarrow> worker_out list" where
  "kill_outs d cache = concat (map (\<lambda>x. [WExec (killClient (entry_uuid (snd x))), WWait d]) cache)"

fun waits :: "worker_out list \<Rightarrow> rat" where
  "waits [] = 0"
| "waits (WWait d # os) = d + waits os"
| "waits (_ # os) = waits os"

abbreviation drain_steps :: "nat \<Rightarrow> nat \<Rightarrow> worker_event list" where
  "drain_steps i n \<equiv> replicate n (WDrain i True)"

lemma drain_step_at:
  assumes "i < length (drains st)" "drain_phase_step cfg st (drains st ! i) = (p, outs)"
  shows "worker_step cfg st (WDrain i True) = (st\<lparr>drains := (drains st)[i := p]\<rparr>,
    (if drains st ! i = AwaitHaproxy then [drain_command cfg] else []) @ outs)"
  using assms by (simp add: drain_step_moves phase_outs_def)

lemma run_killing:
  assumes "i < length (drains st)" "drains st ! i = Killing pos d" "pos \<le> length (clientCache st)"
  shows "run_events (worker_step cfg) st (drain_steps i (length (clientCache st) - pos)) =
    (st\<lparr>drains := (drains st)[i := Killing (length (clientCache st)) d]\<rparr>,
     kill_outs d (drop pos (clientCache st)))"
  using assms
proof (induction "length (clientCache st) - pos" arbitrary: st pos)
  case 0
  then have "(drains st)[i := Killing (length (clientCache st)) d] = drains st"
    by (metis diff_is_0_eq le_antisym list_update_id)
  then show ?case using 0 by (simp add: kill_outs_def)
next
  case (Suc n)
  let ?st = "st\<lparr>drains := (drains st)[i := Killing (pos + 1) d]\<rparr>"
  have pos: "pos < length (clientCache st)" using Suc(2) by simp
  then have step: "worker_step cfg st (WDrain i True) =
      (?st, [WExec (killClient (entry_uuid (snd (clientCache st ! pos)))), WWait d])"
    using Suc.prems by (simp add: drain_step_moves phase_outs_def drain_phase_step_def)
  have n: "n = length (clientCache ?st) - (pos + 1)" using Suc(2) by simp
  have "run_events (worker_step cfg) ?st (drain_steps i n) =
      (?st\<lparr>drains := (drains ?st)[i := Killing (length (clientCache ?st)) d]\<rparr>,
       kill_outs d (drop (pos + 1) (clientCache ?st)))"
    unfolding n using Suc(1) [OF n] Suc.prems pos by simp
  then show ?case
    using step pos by (simp add: Suc(2) [symmetric] kill_outs_def flip: Cons_nth_drop_Suc)
qed

lemma waits_append [simp]: "waits (a @ b) = waits a + waits b"
  by (induction a rule: waits.induct) auto

lemma waits_kill_outs: "waits (kill_outs d cache) = of_nat (length cache) * d"
  by (induction cache) (auto simp: kill_outs_def algebra_simps)

lemma drain_delay_total:
  assumes "0 < n"
  shows "of_nat n * drain_delay cfg n \<le> of_int (sigterm_timeout cfg)"
proof -
  have "drain_delay cfg n \<le> of_int (sigterm_timeout cfg) / of_nat n"
    by (simp add: drain_delay_def Let_def split: option.split)
  then have "of_nat n * drain_delay cfg n \<le> of_nat n * (of_int (sigterm_timeout cfg) / of_nat n)"
    by (rule mult_left_mono) simp
  then show ?thesis using assms by simp
qed

text \<open>The steps of a drain up to its report.\<close>

definition report_steps :: "nat \<Rightarrow> nat" where
  "report_steps n = (if n = 0 then 1 else n + 2)"

lemma run_drain_report:
  assumes "i < length (drains st)" "drains st ! i = AwaitHaproxy" "n = length (clientCache st)"
  shows "run_events (worker_step cfg) st (drain_steps i (report_steps n)) =
    (st\<lparr>drains := (drains st)[i := Signalled]\<rparr>,
     drain_command cfg # kill_outs (drain_delay cfg n) (clientCache st) @ drain_done cfg)"
proof (cases "clientCache st = []")
  case True
  then have "worker_step cfg st (WDrain i True) =
      (st\<lparr>drains := (drains st)[i := Signalled]\<rparr>, drain_command cfg # drain_done cfg)"
    using assms by (simp add: drain_step_moves phase_outs_def drain_phase_step_def)
  then show ?thesis using assms True by (simp add: report_steps_def kill_outs_def del: worker_step.simps)
next
  case False
  let ?d = "drain_delay cfg n"
  let ?p = "\<lambda>p. st\<lparr>drains := (drains st)[i := p]\<rparr>"
  have steps: "drain_steps i (report_steps n) = WDrain i True # drain_steps i n @ [WDrain i True]"
    using False assms(3) by (simp add: report_steps_def numeral_2_eq_2 replicate_app_Cons_same)
  have 1: "worker_step cfg st (WDrain i True) = (?p (Killing 0 ?d), [drain_command cfg])"
    using assms False by (simp add: drain_step_moves phase_outs_def drain_phase_step_def)
  have 2: "run_events (worker_step cfg) (?p (Killing 0 ?d)) (drain_steps i n) =
      (?p (Killing n ?d), kill_outs ?d (clientCache st))"
    using run_killing [of i "?p (Killing 0 ?d)" 0 ?d cfg] assms by simp
  have 3: "run_events (worker_step cfg) (?p (Killing n ?d)) [WDrain i True] = (?p Signalled, drain_done cfg)"
    using assms by (simp add: drain_step_moves phase_outs_def drain_phase_step_def)
  show ?thesis
    unfolding steps
    by (subst run_events.simps(2)) (simp only: 1 2 3 run_events_append Let_def prod.case append_Nil append_Cons)
qed

lemma run_drain:
  assumes "i < length (drains st)" "drains st ! i = AwaitHaproxy" "n = length (clientCache st)"
  shows "run_events (worker_step cfg) st (drain_steps i (n + 3)) =
    (st\<lparr>drains := (drains st)[i := Exited]\<rparr>,
     drain_command cfg # kill_outs (drain_delay cfg n) (clientCache st) @ drain_done cfg @ [WExit 0])"
proof -
  have more: "n + 3 = report_steps n + Suc (if n = 0 then 1 else 0)" by (simp add: report_steps_def)
  let ?p = "\<lambda>p. st\<lparr>drains := (drains st)[i := p]\<rparr>"
  have exit: "worker_step cfg (?p Signalled) (WDrain i True) = (?p Exited, [WExit 0])"
    and "worker_step cfg (?p Exited) (WDrain i True) = (?p Exited, [])"
    using assms by (simp_all add: drain_step_moves phase_outs_def drain_phase_step_def)
  then have "run_events (worker_step cfg) (?p Signalled) (drain_steps i (Suc (if n = 0 then 1 else 0))) =
      (?p Exited, [WExit 0])"
    by (simp del: worker_step.simps)
  then show ?thesis
    unfolding more replicate_add run_events_append run_drain_report [OF assms] by simp
qed

text \<open>C18. A drain that is not disturbed tells HAProxy, then disconnects every known client exactly
  once, in the order in which they connected, then reports to the primary process and exits; the pauses between the
  disconnections add up to at most the termination timeout, so the last client is disconnected
  before it expires.\<close>

theorem drain_schedule:
  assumes "i < length (drains st)" and "drains st ! i = AwaitHaproxy"
    and "0 \<le> sigterm_timeout cfg"
  shows "\<exists>d. snd (run_events (worker_step cfg) st (replicate (length (clientCache st) + 3) (WDrain i True))) =
      drain_command cfg # kill_outs d (clientCache st) @ drain_done cfg @ [WExit 0] \<and>
    waits (kill_outs d (clientCache st)) \<le> of_int (sigterm_timeout cfg)"
proof (intro exI conjI)
  let ?d = "drain_delay cfg (length (clientCache st))"
  show "snd (run_events (worker_step cfg) st (replicate (length (clientCache st) + 3) (WDrain i True))) =
      drain_command cfg # kill_outs ?d (clientCache st) @ drain_done cfg @ [WExit 0]"
    using run_drain [OF assms(1,2) refl] by simp
  show "waits (kill_outs ?d (clientCache st)) \<le> of_int (sigterm_timeout cfg)"
    using drain_delay_total [of "length (clientCache st)" cfg] assms(3)
    by (cases "clientCache st = []") (simp_all add: waits_kill_outs)
qed

definition demo_busy :: worker_state where
  "demo_busy =
     \<lparr> clientCache =
         [(Some 0, \<lparr> entry_uuid = ''abc'', entry_ts = 100, entry_received = Some 50, entry_sent = Some 5 \<rparr>),
          (Some 1, \<lparr> entry_uuid = ''def'', entry_ts = 100, entry_received = Some 7, entry_sent = Some 7 \<rparr>)],
       verbose = False, drain_bound = False, drains = [AwaitHaproxy] \<rparr>"

theorem drain_schedule_witness:
  "\<exists>d. snd (run_events (worker_step demo_worker) demo_busy (replicate 5 (WDrain 0 True))) =
     [WHaproxy (haproxy_drain (backend_name 1)), WExec ''kill abc'', WWait d, WExec ''kill def'', WWait d, WDrained 1, WWait 10000, WExit 0] \<and>
     d + (d + 0) \<le> 10000"
  using drain_schedule [of 0 demo_busy demo_worker]
  by (simp add: demo_busy_def demo_worker_def drain_command_def kill_outs_def drain_done_def killClient_def)

subsection \<open>How often a drain runs\<close>

lemma run_shutdowns:
  assumes "list_all (\<lambda>e. e = WPrepareShutdown \<or> e = WSignal) evs" "\<not> drain_bound st"
  shows "length (drains (fst (run_events (worker_step cfg) st evs))) =
    length (drains st) + length (filter (\<lambda>e. e = WSignal) evs)"
  using assms
proof (induction evs arbitrary: st)
  case (Cons e evs)
  then show ?case
    using Cons.IH [of st] Cons.IH [of "fst (start_drain cfg st)"]
    by (auto simp: start_drain_def on_prepare_shutdown_def split_def Let_def)
qed simp

text \<open>C34. How many drains a worker runs.  The rebinding of \<open>drainConnections\<close> protects only the
  shutdown message: of any number of such messages at most one starts a drain, and none after a
  signal; but the signal handlers hold the original function, so every signal starts another
  drain, one that is already running or not.\<close>

theorem drain_count:
  assumes "list_all (\<lambda>e. e = WPrepareShutdown \<or> e = WSignal) evs"
  shows "length (drains (fst (run_events (worker_step cfg) (worker_init v) evs))) =
    length (filter (\<lambda>e. e = WSignal) evs) +
    (if evs \<noteq> [] \<and> hd evs = WPrepareShutdown then 1 else 0)"
proof (cases evs)
  case (Cons e es)
  have "length (drains (fst (run_events (worker_step cfg) (fst (start_drain cfg (worker_init v))) es))) =
      length (drains (fst (start_drain cfg (worker_init v)))) + length (filter (\<lambda>e. e = WSignal) es)"
    using assms Cons by (intro run_shutdowns) (auto simp: start_drain_def)
  then show ?thesis
    using assms Cons by (auto simp: start_drain_def on_prepare_shutdown_def split_def Let_def worker_init_def)
qed (simp add: worker_init_def)

theorem drain_count_witness:
  "length (drains (fst (run_events (worker_step demo_worker) (worker_init False)
     [WPrepareShutdown, WPrepareShutdown, WSignal, WSignal]))) = 3"
  using drain_count [of "[WPrepareShutdown, WPrepareShutdown, WSignal, WSignal]" demo_worker False] by simp

text \<open>With HAProxy's socket out of reach, a drain never gets anywhere: each attempt ends in an
  uncaught exception that starts the next.\<close>

definition is_progress :: "worker_out \<Rightarrow> bool" where
  "is_progress out \<longleftrightarrow> (\<exists>i. out = WDrained i) \<or> (\<exists>c. out = WExit c) \<or> (\<exists>cmd. out = WExec cmd)"

text \<open>The events of a worker whose connections to HAProxy all fail, and whose OpenVPN process runs.\<close>

fun haproxy_down :: "worker_event \<Rightarrow> bool" where
  "haproxy_down (WDrain i ok) = (\<not> ok)"
| "haproxy_down (WProcessExit pid code sig) = False"
| "haproxy_down (WProcessError err) = False"
| "haproxy_down _ = True"

text \<open>No drain has got past its connection to HAProxy.\<close>

definition not_past_haproxy :: "worker_state \<Rightarrow> bool" where
  "not_past_haproxy st \<longleftrightarrow> set (drains st) \<subseteq> {AwaitHaproxy, Exited}"

definition stalled :: "worker_out list \<Rightarrow> bool" where
  "stalled outs \<longleftrightarrow> list_all (\<lambda>out. \<not> is_progress out) outs \<and> waits outs = 0"

lemma stalled_append [simp]: "stalled (a @ b) \<longleftrightarrow> list_all (\<lambda>out. \<not> is_progress out) (a @ b) \<and> waits a + waits b = 0"
  by (simp add: stalled_def)

lemma start_drain_down:
  assumes "not_past_haproxy st"
  shows "not_past_haproxy (fst (start_drain cfg st))" "stalled (snd (start_drain cfg st))"
    "AwaitHaproxy \<in> set (drains (fst (start_drain cfg st)))"
  using assms by (auto simp: not_past_haproxy_def start_drain_def stalled_def)

lemma haproxy_down_step:
  assumes "haproxy_down ev" "not_past_haproxy st" "worker_step cfg st ev = (st', outs)"
  shows "not_past_haproxy st' \<and> stalled outs \<and>
    (AwaitHaproxy \<in> set (drains st) \<or> ev = WSignal \<longrightarrow> AwaitHaproxy \<in> set (drains st'))"
proof (cases ev)
  case (WDrain i ok)
  show ?thesis
  proof (cases rule: drain_step_cases [of st i cfg ok])
    case missing
    then show ?thesis using assms WDrain by (auto simp: stalled_def)
  next
    case rejected
    have "not_past_haproxy (st\<lparr>drains := (drains st)[i := Exited]\<rparr>)"
      using assms(2) set_update_subset_insert [of "drains st" i Exited] by (auto simp: not_past_haproxy_def)
    from start_drain_down [OF this, of cfg] show ?thesis using assms(3) WDrain rejected(4) by simp
  next
    case moves
    then have "drains st ! i = Exited"
      using assms(1) WDrain subsetD [OF assms(2) [unfolded not_past_haproxy_def] nth_mem [OF moves(1)]] by auto
    then show ?thesis
      using assms(2,3) WDrain moves(3) list_update_id [of "drains st" i]
      by (auto simp: drain_phase_step_def phase_outs_def stalled_def not_past_haproxy_def)
  qed
qed (use assms start_drain_down [of st cfg] in
  \<open>auto simp: on_established_def writeBandwidthMetrics_def on_log_def on_toggle_def on_prepare_shutdown_def
    stalled_def is_progress_def not_past_haproxy_def Let_def split: option.splits if_splits\<close>)

lemma haproxy_down_run:
  assumes "list_all haproxy_down evs" "not_past_haproxy st" "run_events (worker_step cfg) st evs = (st', outs)"
  shows "not_past_haproxy st' \<and> stalled outs \<and>
    (AwaitHaproxy \<in> set (drains st) \<or> WSignal \<in> set evs \<longrightarrow> AwaitHaproxy \<in> set (drains st'))"
  using assms
proof (induction evs arbitrary: st outs)
  case Nil
  then show ?case by (simp add: stalled_def)
next
  case (Cons ev evs)
  obtain st1 o1 where step: "worker_step cfg st ev = (st1, o1)" by fastforce
  obtain o2 where rest: "run_events (worker_step cfg) st1 evs = (st', o2)" and outs: "outs = o1 @ o2"
    using Cons.prems(3) step by (auto split: prod.splits)
  show ?case
    using haproxy_down_step [OF _ Cons.prems(2) step] Cons.IH [OF _ _ rest] Cons.prems(1)
    by (auto simp: outs stalled_def)
qed

text \<open>C35. A worker that cannot reach HAProxy when it is told to drain retries for ever, at once and
  without a pause.  Whatever clients it knows and whatever else happens to it, as long as its
  connections to HAProxy fail and its OpenVPN process runs, it disconnects no client, does not
  report to the primary process, does not exit and does not wait; and once it has been told by a
  signal, some drain is always about to try again.\<close>

theorem haproxy_down_never_drains:
  assumes "list_all haproxy_down evs" and "set (drains st) \<subseteq> {AwaitHaproxy, Exited}"
    and "run_events (worker_step cfg) st evs = (st', outs)"
  shows "list_all (\<lambda>out. \<not> is_progress out) outs \<and> waits outs = 0 \<and>
    (AwaitHaproxy \<in> set (drains st) \<or> WSignal \<in> set evs \<longrightarrow> AwaitHaproxy \<in> set (drains st'))"
  using haproxy_down_run [OF assms(1) _ assms(3)] assms(2) by (simp add: not_past_haproxy_def stalled_def)

theorem haproxy_down_never_drains_witness:
  "let r = run_events (worker_step demo_worker) demo_busy
       [WDrain 0 False, WSignal, WBytecount (Some 0) (Some 90) (Some 9) 130, WDrain 1 False, WDrain 2 False] in
   length (clientCache (fst r)) = 2 \<and> list_all (\<lambda>out. \<not> is_progress out) (snd r) \<and>
   drains (fst r) = [Exited, Exited, Exited, AwaitHaproxy, AwaitHaproxy]"
proof -
  let ?evs = "[WDrain 0 False, WSignal, WBytecount (Some 0) (Some 90) (Some 9) 130, WDrain 1 False, WDrain 2 False]"
  let ?r = "run_events (worker_step demo_worker) demo_busy ?evs"
  have "list_all (\<lambda>out. \<not> is_progress out) (snd ?r)"
    using haproxy_down_never_drains [of ?evs demo_busy demo_worker "fst ?r" "snd ?r"]
    by (simp add: demo_busy_def del: run_events.simps)
  moreover have "length (clientCache (fst ?r)) = 2"
    and "drains (fst ?r) = [Exited, Exited, Exited, AwaitHaproxy, AwaitHaproxy]" by code_simp+
  ultimately show ?thesis by (simp only: Let_def simp_thms)
qed

subsection \<open>Start-up\<close>

lemma run_startup_all: "\<forall>j < length as. works (k + j) \<Longrightarrow> run_startup works k as = as"
proof (induction as arbitrary: k)
  case (Cons a as)
  have "\<forall>j < length as. works (k + 1 + j)" using Cons.prems by auto
  moreover have "works k" using Cons.prems [THEN spec, of 0] by simp
  ultimately show ?case using Cons.IH [of "k + 1"] by simp
qed simp

lemma run_startup_fail:
  "n < length as \<Longrightarrow> \<forall>j < n. works (k + j) \<Longrightarrow> \<not> works (k + n) \<Longrightarrow>
   run_startup works k as = take (Suc n) as @ [FatalExit]"
proof (induction as arbitrary: k n)
  case (Cons a as)
  show ?case
  proof (cases n)
    case 0
    then show ?thesis using Cons.prems by simp
  next
    case (Suc m)
    moreover have "\<forall>j < m. works (k + 1 + j)" using Cons.prems(2) Suc by auto
    ultimately show ?thesis using Cons.IH [of m "k + 1"] Cons.prems by auto
  qed
qed simp

lemma registers_iff:
  "(\<exists>cmd. RegisterHaproxy cmd \<in>
      set (run_startup works 0 [StartOpenvpn, ConnectConsole, Exec x, Exec y, RegisterHaproxy z])) \<longleftrightarrow>
     works 0 \<and> works 1 \<and> works 2 \<and> works 3"
  by (cases "works 0"; cases "works 1"; cases "works 2") (simp_all add: numeral_2_eq_2 numeral_3_eq_3)

text \<open>An instance takes part in load balancing only when it is ready: HAProxy is told of it only
  after OpenVPN has started, its console is connected, byte counting is configured and the hold
  is released; the first step that fails is the last one tried and ends the process.\<close>

theorem startup_order:
  "run_startup works 0 (startup_plan c inst) =
     (if \<exists>k < 5. \<not> works k
      then take (Suc (LEAST k. \<not> works k)) (startup_plan c inst) @ [FatalExit]
      else startup_plan c inst) \<and>
   ((\<exists>cmd. RegisterHaproxy cmd \<in> set (run_startup works 0 (startup_plan c inst))) \<longleftrightarrow>
      works 0 \<and> works 1 \<and> works 2 \<and> works 3)"
proof (intro conjI)
  have len: "length (startup_plan c inst) = 5" by (simp add: startup_plan_def)
  show "run_startup works 0 (startup_plan c inst) =
     (if \<exists>k < 5. \<not> works k
      then take (Suc (LEAST k. \<not> works k)) (startup_plan c inst) @ [FatalExit]
      else startup_plan c inst)"
  proof (cases "\<exists>k < 5. \<not> works k")
    case True
    then obtain k where k: "k < 5" "\<not> works k" by blast
    define n where "n = (LEAST k. \<not> works k)"
    have "\<not> works (0 + n)" unfolding n_def using LeastI [of "\<lambda>k. \<not> works k" k] k(2) by simp
    moreover have "n < length (startup_plan c inst)"
      unfolding n_def using Least_le [of "\<lambda>k. \<not> works k" k] k len by simp
    moreover have "\<forall>j < n. works (0 + j)" unfolding n_def using not_less_Least by force
    ultimately have "run_startup works 0 (startup_plan c inst) = take (Suc n) (startup_plan c inst) @ [FatalExit]"
      by (intro run_startup_fail)
    with True show ?thesis by (simp only: n_def if_True)
  next
    case False
    then show ?thesis using run_startup_all [of "startup_plan c inst" works 0] len by auto
  qed
  show "(\<exists>cmd. RegisterHaproxy cmd \<in> set (run_startup works 0 (startup_plan c inst))) \<longleftrightarrow>
      works 0 \<and> works 1 \<and> works 2 \<and> works 3"
    unfolding startup_plan_def by (rule registers_iff)
qed

end
