(* ===== verification/Init_Primary.thy ===== *)
theory Init_Primary
  imports Metrics_Names Config Service
begin

text \<open>
  \<^verbatim>\<open>src/init-primary.ts\<close>, \<^verbatim>\<open>src/init-worker.ts\<close> and \<^verbatim>\<open>src/init.ts\<close>: the primary process of the
  cluster, which starts and restarts the workers, collects their bitrate samples for the
  metrics endpoint and ends when every worker has drained; and how a worker process starts.

  The primary is a machine over messages, signals, worker exits and metric scrapes.  A scrape is
  two events, because the handler awaits the registries between adding the samples and clearing
  them.  Express, Prometheus and Node's cluster module are outside the model; \<open>cluster.workers\<close>
  is the list of running workers.
\<close>

subsection \<open>State, events and outputs\<close>

record worker_metric =
  rxBitrate :: "rat option list"
  txBitrate :: "rat option list"

record primary_state =
  workerMetrics :: "(string \<times> worker_metric) list"
  primary_verbose :: bool
  workerStates :: "(int \<times> bool) list"
  cluster_workers :: "int list"

record primary_config =
  instance_count :: int
  primary_service_id :: int
  process_env :: "(string \<times> string) list"
  service_address :: "string option"
  api_port :: int

datatype primary_out =
    PSend int string
  | PFork "(string \<times> string) list"
  | PMetric metric_call
  | PReply int
  | PListen int
  | PExit int

datatype primary_event =
    PBitrate string "rat option" "rat option"
  | PDrain int bool
  | PSIGUSR2
  | PSIGTERM
  | PWorkerExit int
  | PScrapeStart
  | PScrapeEnd bool

definition primary_init :: "bool \<Rightarrow> primary_state" where
  "primary_init v =
     \<lparr> workerMetrics = [], primary_verbose = v, workerStates = [], cluster_workers = [] \<rparr>"

subsection \<open>Messages and signals\<close>

definition send_all :: "string \<Rightarrow> primary_state \<Rightarrow> primary_out list" where
  "send_all msg st = map (\<lambda>w. PSend w msg) (cluster_workers st)"

definition on_bitrate :: "string \<Rightarrow> rat option \<Rightarrow> rat option \<Rightarrow> primary_state \<Rightarrow> primary_state" where
  "on_bitrate uuid rx tx st =
     (let m = (case map_of (workerMetrics st) uuid of None \<Rightarrow> \<lparr> rxBitrate = [], txBitrate = [] \<rparr> | Some m \<Rightarrow> m)
      in st\<lparr>workerMetrics := AList.update uuid
              (m\<lparr>rxBitrate := rxBitrate m @ [rx], txBitrate := txBitrate m @ [tx]\<rparr>) (workerMetrics st)\<rparr>)"

definition on_drain ::
  "primary_config \<Rightarrow> int \<Rightarrow> bool \<Rightarrow> primary_state \<Rightarrow> primary_state \<times> primary_out list" where
  "on_drain cfg inst finished st =
     (let st' = st\<lparr>workerStates := AList.update inst finished (workerStates st)\<rparr>;
          drainCount = length (workerStates st')
      in (st', if int drainCount \<ge> instance_count cfg then [PExit 0] else []))"

subsection \<open>Workers\<close>

text \<open>The environment of a forked worker: the primary's own with three variables set.\<close>

definition worker_env :: "primary_config \<Rightarrow> int \<Rightarrow> bool \<Rightarrow> (string \<times> string) list" where
  "worker_env cfg workerId v =
     AList.update ''VPN_VERBOSE_LOGS'' (if v then ''true'' else ''false'')
       (AList.update ''SERVICE_ID'' (show_int (primary_service_id cfg))
         (AList.update ''WORKER_ID'' (show_int workerId) (process_env cfg)))"

definition restartWorker ::
  "primary_config \<Rightarrow> int \<Rightarrow> primary_state \<Rightarrow> primary_state \<times> primary_out list" where
  "restartWorker cfg workerId st =
     (st\<lparr>cluster_workers := cluster_workers st @ [workerId]\<rparr>,
      [PFork (worker_env cfg workerId (primary_verbose st))])"

text \<open>The \<open>for\<close> loop that starts the workers, from worker \<open>i\<close> on.\<close>

function fork_workers ::
  "primary_config \<Rightarrow> int \<Rightarrow> primary_state \<Rightarrow> primary_state \<times> primary_out list" where
  "fork_workers cfg i st =
     (if i < instance_count cfg
      then let (st1, o1) = restartWorker cfg (i + 1) st; (st2, o2) = fork_workers cfg (i + 1) st1
           in (st2, o1 @ o2)
      else (st, []))"
  by pat_completeness auto
termination
  by (relation "measure (\<lambda>(cfg, i, st). nat (instance_count cfg - i))") auto

declare fork_workers.simps [simp del]

definition on_worker_exit ::
  "primary_config \<Rightarrow> int \<Rightarrow> primary_state \<Rightarrow> primary_state \<times> primary_out list" where
  "on_worker_exit cfg workerId st =
     restartWorker cfg workerId (st\<lparr>cluster_workers := remove1 workerId (cluster_workers st)\<rparr>)"

subsection \<open>The metrics endpoint\<close>

text \<open>\<open>sum\<close> and \<open>mean\<close> of numbers that may be \<open>NaN\<close>.\<close>

definition js_sum :: "rat option list \<Rightarrow> rat option" where
  "js_sum arr = foldl (\<lambda>a b. case (a, b) of (Some x, Some y) \<Rightarrow> Some (x + y) | _ \<Rightarrow> None) (Some 0) arr"

definition mean :: "rat option list \<Rightarrow> rat option" where
  "mean arr = (if arr \<noteq> [] then map_option (\<lambda>s. s / of_nat (length arr)) (js_sum arr) else Some 0)"

definition scrape_samples :: "primary_state \<Rightarrow> metric_call list" where
  "scrape_samples st =
     concat (map (\<lambda>(uuid, m). [MHistogram SessionRxBitrate (mean (rxBitrate m)),
                               MHistogram SessionTxBitrate (mean (txBitrate m))]) (workerMetrics st))"

definition scrape_end :: "bool \<Rightarrow> primary_state \<Rightarrow> primary_state \<times> primary_out list" where
  "scrape_end ok st =
     (if ok then (st\<lparr>workerMetrics := []\<rparr>,
                  [PReply 200, PMetric (MReset SessionRxBitrate), PMetric (MReset SessionTxBitrate)])
      else (st, [PReply 500]))"

text \<open>\<open>getClusterMetrics\<close>: fetches of the workers' metrics are numbered promises.  A call awaits the
  fetch in progress or starts one; when a fetch settles, the calls that await it continue and
  forget the fetch in progress.  Continuations of one promise run without anything in between.\<close>

record fetches =
  inProgress :: "nat option"
  outstanding :: "nat set"
  awaiting :: "nat list"
  started :: nat

datatype fetch_event = FetchCall | FetchSettled nat

definition fetches_init :: fetches where
  "fetches_init = \<lparr> inProgress = None, outstanding = {}, awaiting = [], started = 0 \<rparr>"

definition getClusterMetrics :: "fetches \<Rightarrow> fetches" where
  "getClusterMetrics f =
     (case inProgress f of
        Some p \<Rightarrow> f\<lparr>awaiting := awaiting f @ [p]\<rparr>
      | None \<Rightarrow>
          f\<lparr>inProgress := Some (started f), outstanding := insert (started f) (outstanding f),
            awaiting := awaiting f @ [started f], started := started f + 1\<rparr>)"

definition fetch_settled :: "nat \<Rightarrow> fetches \<Rightarrow> fetches" where
  "fetch_settled p f =
     f\<lparr>inProgress := (if p \<in> set (awaiting f) then None else inProgress f),
       outstanding := outstanding f - {p}, awaiting := filter (\<lambda>q. q \<noteq> p) (awaiting f)\<rparr>"

text \<open>A promise that is not outstanding does not settle.  A step emits how many calls continue.\<close>

fun fetch_step :: "fetches \<Rightarrow> fetch_event \<Rightarrow> fetches \<times> nat list" where
  "fetch_step f FetchCall = (getClusterMetrics f, [])"
| "fetch_step f (FetchSettled p) =
     (if p \<in> outstanding f then (fetch_settled p f, [length (filter (\<lambda>q. q = p) (awaiting f))])
      else (f, []))"

fun primary_step :: "primary_config \<Rightarrow> primary_state \<Rightarrow> primary_event \<Rightarrow> primary_state \<times> primary_out list" where
  "primary_step cfg st (PBitrate uuid rx tx) = (on_bitrate uuid rx tx st, [])"
| "primary_step cfg st (PDrain inst finished) = on_drain cfg inst finished st"
| "primary_step cfg st PSIGUSR2 =
     (st\<lparr>primary_verbose := \<not> primary_verbose st\<rparr>, send_all ''toggleVerbosity'' st)"
| "primary_step cfg st PSIGTERM = (st, send_all ''prepareShutdown'' st)"
| "primary_step cfg st (PWorkerExit w) = on_worker_exit cfg w st"
| "primary_step cfg st PScrapeStart = (st, map PMetric (scrape_samples st))"
| "primary_step cfg st (PScrapeEnd ok) = scrape_end ok st"

subsection \<open>Worker processes\<close>

datatype init_action = DescribeMetrics | StartVpnWorker int int | StartProxyWorker int int | ExitProcess int

text \<open>\<^verbatim>\<open>init-worker.ts\<close>: \<open>intVar\<close> is the function of \<^verbatim>\<open>@balena/env-parsing\<close> on the worker's environment,
  \<open>vpn_ok\<close> is whether the VPN worker's promise resolves.  An error outside the \<open>try\<close> ends the
  process as well.\<close>

definition init_worker :: "(string \<Rightarrow> int result) \<Rightarrow> bool \<Rightarrow> init_action list" where
  "init_worker intVar vpn_ok =
     DescribeMetrics #
     (case (intVar ''WORKER_ID'', intVar ''SERVICE_ID'') of
        (Inr inst, Inr svc) \<Rightarrow>
          StartVpnWorker inst svc #
          (if vpn_ok then [StartProxyWorker inst svc] else [ExitProcess 1])
      | _ \<Rightarrow> [ExitProcess 1])"

subsection \<open>Starting the primary\<close>

text \<open>The callback that is given to \<open>wrap\<close>: the API server, the workers, the metrics server.  Nothing
  awaits the callback, so an exception in it is not an error of \<open>wrap\<close>.\<close>

definition primary_boot ::
  "primary_config \<Rightarrow> bool \<Rightarrow> service_instance \<Rightarrow> primary_state \<times> primary_out list" where
  "primary_boot cfg v serviceInstance =
     (case getId serviceInstance of
        Inl err \<Rightarrow> (primary_init v, [])
      | Inr i \<Rightarrow>
          let (st, forks) = fork_workers (cfg\<lparr>primary_service_id := i\<rparr>) 0 (primary_init v)
          in (st, [PListen (api_port cfg)] @ forks @ [PListen 8080]))"

definition primary_main ::
  "primary_config \<Rightarrow> service_config \<Rightarrow> (nat \<Rightarrow> service_post \<Rightarrow> api_failure + int option) \<Rightarrow> bool \<Rightarrow>
   ((primary_state \<times> primary_out list) \<times> service_instance) option" where
  "primary_main cfg scfg answers v =
     service_wrap scfg (service_address cfg) answers (primary_boot cfg v) ServiceInstance_new"

subsection \<open>Draining\<close>

lemma update_keys_set: "fst ` set (AList.update k v al) = insert k (fst ` set al)"
  by (simp add: dom_update)

lemma length_distinct_keys: "distinct (map fst al) \<Longrightarrow> length al = card (fst ` set al)"
  by (metis distinct_card length_map set_map)

lemma run_drains:
  assumes "run_events (primary_step cfg) st (map (\<lambda>(i, f). PDrain i f) msgs) = (st', outs)"
  shows "fst ` set (workerStates st') = fst ` set (workerStates st) \<union> fst ` set msgs"
    and "distinct (map fst (workerStates st)) \<Longrightarrow> distinct (map fst (workerStates st'))"
proof -
  have "fst ` set (workerStates st') = fst ` set (workerStates st) \<union> fst ` set msgs \<and>
      (distinct (map fst (workerStates st)) \<longrightarrow> distinct (map fst (workerStates st')))"
    using assms
  proof (induction msgs arbitrary: st outs)
    case (Cons m msgs)
    obtain i f where m: "m = (i, f)" by fastforce
    let ?st = "st\<lparr>workerStates := AList.update i f (workerStates st)\<rparr>"
    obtain o' where "run_events (primary_step cfg) ?st (map (\<lambda>(i, f). PDrain i f) msgs) = (st', o')"
      using Cons.prems m by (auto simp: on_drain_def Let_def split: prod.splits)
    with Cons.IH [of ?st o'] m show ?case
      by (auto simp: distinct_update update_keys_set)
  qed auto
  then show "fst ` set (workerStates st') = fst ` set (workerStates st) \<union> fst ` set msgs"
    and "distinct (map fst (workerStates st)) \<Longrightarrow> distinct (map fst (workerStates st'))" by blast+
qed

text \<open>When every worker has reported, the primary has exited.\<close>

lemma all_drained_exit:
  assumes "order \<noteq> []" "{1..instance_count cfg} \<subseteq> set order"
  shows "PExit 0 \<in> set (snd (run_events (primary_step cfg) st (map (\<lambda>i. PDrain i True) order)))"
proof -
  obtain js i where order: "order = js @ [i]" using assms(1) by (cases order rule: rev_cases) auto
  obtain st1 o1 where run: "run_events (primary_step cfg) st (map (\<lambda>i. PDrain i True) js) = (st1, o1)"
    by fastforce
  then have "run_events (primary_step cfg) st (map (\<lambda>(i, f). PDrain i f) (map (\<lambda>i. (i, True)) js)) = (st1, o1)"
    by (simp add: comp_def)
  from run_drains(1) [OF this] have keys: "set js \<subseteq> fst ` set (workerStates st1)" by force
  let ?al = "AList.update i True (workerStates st1)"
  have "{1..instance_count cfg} \<subseteq> fst ` set ?al"
    using assms(2) keys order by (auto simp: update_keys_set)
  then have "card {1..instance_count cfg} \<le> card (fst ` set ?al)" by (intro card_mono) simp_all
  also have "\<dots> \<le> length ?al" by (metis card_length length_map set_map)
  finally have "instance_count cfg \<le> int (length ?al)" by simp
  then have "primary_step cfg st1 (PDrain i True) = (st1\<lparr>workerStates := ?al\<rparr>, [PExit 0])"
    by (simp add: on_drain_def)
  then show ?thesis by (simp add: order run_events_append run)
qed

text \<open>The primary process ends when the last worker has drained, and not before: over any sequence
  of drain messages, with repetitions, the message that brings the number of different workers to
  the instance count makes it exit, and while fewer have reported it does not exit.\<close>

theorem primary_exits_when_drained:
  assumes "run_events (primary_step cfg) (primary_init v) (map (\<lambda>(i, f). PDrain i f) msgs) = (st, outs)"
  shows "primary_step cfg st (PDrain i f) =
      (st\<lparr>workerStates := AList.update i f (workerStates st)\<rparr>,
       if instance_count cfg \<le> int (card (insert i (fst ` set msgs))) then [PExit 0] else [])"
proof -
  have "distinct (map fst (workerStates st)) \<and> fst ` set (workerStates st) = fst ` set msgs"
    using run_drains [OF assms] by (simp add: primary_init_def)
  then have "length (AList.update i f (workerStates st)) = card (insert i (fst ` set msgs))"
    by (simp add: length_distinct_keys distinct_update update_keys_set)
  then show ?thesis by (simp add: on_drain_def)
qed

definition demo_primary :: primary_config where
  "demo_primary =
     \<lparr> instance_count = 2, primary_service_id = 7, process_env = [(''PATH'', ''/bin'')],
       service_address = Some ''10.0.0.1'', api_port = 80 \<rparr>"

theorem primary_exits_when_drained_witness:
  "snd (primary_step demo_primary
     (fst (run_events (primary_step demo_primary) (primary_init False) [PDrain 1 True, PDrain 1 True]))
     (PDrain 2 True)) = [PExit 0]"
proof -
  let ?r = "run_events (primary_step demo_primary) (primary_init False) [PDrain 1 True, PDrain 1 True]"
  have "run_events (primary_step demo_primary) (primary_init False)
      (map (\<lambda>(i, f). PDrain i f) [(1, True), (1, True)]) = (fst ?r, snd ?r)" by simp
  from primary_exits_when_drained [OF this, of 2 True] show ?thesis
    by (simp add: demo_primary_def)
qed

subsection \<open>The set of workers\<close>

lemma fork_workers_from:
  assumes "i \<le> instance_count cfg"
  shows "cluster_workers (fst (fork_workers cfg i st)) = cluster_workers st @ [i + 1..instance_count cfg] \<and>
    workerMetrics (fst (fork_workers cfg i st)) = workerMetrics st \<and>
    workerStates (fst (fork_workers cfg i st)) = workerStates st \<and>
    snd (fork_workers cfg i st) =
      map (\<lambda>w. PFork (worker_env cfg w (primary_verbose st))) [i + 1..instance_count cfg]"
  using assms
proof (induction cfg i st rule: fork_workers.induct)
  case (1 cfg i st)
  show ?case
  proof (cases "i < instance_count cfg")
    case True
    let ?st = "st\<lparr>cluster_workers := cluster_workers st @ [i + 1]\<rparr>"
    have "[i + 1..instance_count cfg] = (i + 1) # [i + 1 + 1..instance_count cfg]"
      using True by (simp add: upto_rec1)
    moreover have "cluster_workers (fst (fork_workers cfg (i + 1) ?st)) =
        cluster_workers ?st @ [i + 1 + 1..instance_count cfg] \<and>
      workerMetrics (fst (fork_workers cfg (i + 1) ?st)) = workerMetrics ?st \<and>
      workerStates (fst (fork_workers cfg (i + 1) ?st)) = workerStates ?st \<and>
      snd (fork_workers cfg (i + 1) ?st) =
        map (\<lambda>w. PFork (worker_env cfg w (primary_verbose ?st))) [i + 1 + 1..instance_count cfg]"
      using 1 True by (simp add: restartWorker_def)
    ultimately show ?thesis
      using True by (subst (1 2 3 4) fork_workers.simps) (simp add: restartWorker_def split_def Let_def)
  next
    case False
    then show ?thesis using 1(2) by (subst (1 2 3 4) fork_workers.simps) simp
  qed
qed

definition workers_inv :: "primary_config \<Rightarrow> primary_state \<Rightarrow> bool" where
  "workers_inv cfg st \<longleftrightarrow> distinct (cluster_workers st) \<and> set (cluster_workers st) = {1..instance_count cfg}"

text \<open>Only running workers exit.\<close>

inductive primary_trans ::
  "primary_config \<Rightarrow> primary_state \<Rightarrow> primary_event \<times> primary_out list \<Rightarrow> primary_state \<Rightarrow> bool"
  for cfg :: primary_config where
  primary_other: "primary_step cfg st ev = (st', outs) \<Longrightarrow> (\<forall>w. ev \<noteq> PWorkerExit w) \<Longrightarrow>
    primary_trans cfg st (ev, outs) st'"
| primary_worker_exit: "w \<in> set (cluster_workers st) \<Longrightarrow> on_worker_exit cfg w st = (st', outs) \<Longrightarrow>
    primary_trans cfg st (PWorkerExit w, outs) st'"

definition primary_started :: "primary_config \<Rightarrow> bool \<Rightarrow> primary_state \<Rightarrow> bool" where
  "primary_started cfg v st \<longleftrightarrow> 0 \<le> instance_count cfg \<and> st = fst (fork_workers cfg 0 (primary_init v))"

lemma primary_other_workers:
  "primary_step cfg st ev = (st', outs) \<Longrightarrow> (\<forall>w. ev \<noteq> PWorkerExit w) \<Longrightarrow>
   cluster_workers st' = cluster_workers st"
  by (cases ev) (auto simp: on_bitrate_def on_drain_def scrape_end_def Let_def split: if_splits)

lemma replace_worker:
  "distinct ws \<Longrightarrow> w \<in> set ws \<Longrightarrow>
   distinct (remove1 w ws @ [w]) \<and> set (remove1 w ws @ [w]) = set ws"
  by auto

interpretation primary_machine: transition_invariant "primary_started cfg v" "primary_trans cfg" "workers_inv cfg"
proof
  fix st
  assume "primary_started cfg v st"
  then show "workers_inv cfg st"
    using fork_workers_from [of 0 cfg "primary_init v"]
    by (auto simp: primary_started_def workers_inv_def primary_init_def)
next
  fix st l st'
  assume inv: "workers_inv cfg st" and step: "primary_trans cfg st l st'"
  from step show "workers_inv cfg st'"
  proof cases
    case (primary_other ev outs)
    then show ?thesis using inv primary_other_workers by (simp add: workers_inv_def)
  next
    case (primary_worker_exit w outs)
    then have "cluster_workers st' = remove1 w (cluster_workers st) @ [w]"
      by (auto simp: on_worker_exit_def restartWorker_def)
    moreover have "distinct (remove1 w (cluster_workers st) @ [w]) \<and>
        set (remove1 w (cluster_workers st) @ [w]) = set (cluster_workers st)"
      using inv primary_worker_exit(2) by (intro replace_worker) (simp_all add: workers_inv_def)
    ultimately show ?thesis using inv unfolding workers_inv_def by metis
  qed
qed

lemma worker_env_ids:
  "map_of (worker_env cfg w v) ''WORKER_ID'' = Some (show_int w)"
  "map_of (worker_env cfg w v) ''SERVICE_ID'' = Some (show_int (primary_service_id cfg))"
  by (simp_all add: worker_env_def update_conv)

text \<open>What the code relies on of \<open>intVar\<close>: it reads a variable that holds a decimal integer.\<close>

definition reads_ints :: "((string \<times> string) list \<Rightarrow> string \<Rightarrow> int result) \<Rightarrow> bool" where
  "reads_ints intVar \<longleftrightarrow>
     (\<forall>env name i. map_of env name = Some (show_int i) \<longrightarrow> intVar env name = Inr i)"

lemma primary_boot_registered:
  assumes "getId s = Inr i" "0 \<le> instance_count cfg"
  shows "snd (primary_boot cfg v s) =
      [PListen (api_port cfg)] @
      map (\<lambda>w. PFork (worker_env (cfg\<lparr>primary_service_id := i\<rparr>) w v)) [1..instance_count cfg] @ [PListen 8080]"
    and "primary_started (cfg\<lparr>primary_service_id := i\<rparr>) v (fst (primary_boot cfg v s))"
  using assms fork_workers_from [of 0 "cfg\<lparr>primary_service_id := i\<rparr>" "primary_init v"]
  by (simp_all add: primary_boot_def split_def Let_def primary_started_def primary_init_def)

text \<open>C29. How the cluster comes up.  If the API never gives this instance an id, the primary starts
  nothing.  Otherwise it starts with the id of the first answer that carries one: it listens for
  the VPN scripts, forks exactly one worker for each number from one to the instance count, in
  order, and listens for metric scrapes; every worker finds its own number and that id in its
  environment and starts with them; the pool of workers is complete; and every heartbeat is
  sent for that id, whether or not earlier heartbeats failed.\<close>

theorem primary_boots:
  assumes "reads_ints intVar" and "0 \<le> instance_count cfg"
  shows "case primary_main cfg scfg answers v of
      None \<Rightarrow> \<forall>k. \<not> good_answer (answers k (register_request scfg (service_address cfg)))
    | Some ((st, outs), s) \<Rightarrow>
        \<exists>i. answers (LEAST k. good_answer (answers k (register_request scfg (service_address cfg))))
              (register_request scfg (service_address cfg)) = Inr (Some i) \<and>
          outs = [PListen (api_port cfg)] @
            map (\<lambda>w. PFork (worker_env (cfg\<lparr>primary_service_id := i\<rparr>) w v)) [1..instance_count cfg] @
            [PListen 8080] \<and>
          (\<forall>w. take 2 (init_worker (intVar (worker_env (cfg\<lparr>primary_service_id := i\<rparr>) w v)) ok) =
             [DescribeMetrics, StartVpnWorker w i]) \<and>
          reach (primary_started (cfg\<lparr>primary_service_id := i\<rparr>) v)
            (primary_trans (cfg\<lparr>primary_service_id := i\<rparr>)) st \<and>
          map fst (heartbeats scfg patch s n) =
            replicate n (Some \<lparr> patch_id = i, patch_is_alive = True, patch_headers = service_headers scfg \<rparr>)"
proof (cases "\<exists>k. good_answer (answers k (register_request scfg (service_address cfg)))")
  case False
  then have "primary_main cfg scfg answers v = None"
    by (simp add: primary_main_def service_wrap_def register_never)
  with False show ?thesis by simp
next
  case True
  let ?req = "register_request scfg (service_address cfg)"
  define k where "k = (LEAST k. good_answer (answers k ?req))"
  have "good_answer (answers k ?req)" unfolding k_def by (rule LeastI_ex [OF True])
  moreover have "\<not> good_answer (answers j ?req)" if "j < k" for j
    using that not_less_Least unfolding k_def by blast
  moreover have fresh: "service_id ServiceInstance_new = None" by (simp add: ServiceInstance_new_def)
  ultimately obtain i caps where i: "answers k ?req = Inr (Some i)"
    and reg: "service_register scfg (service_address cfg) answers 0 ServiceInstance_new =
      Some (k, caps, ServiceInstance_new\<lparr>service_id := Some i\<rparr>)"
    using register_first [OF fresh, of answers k scfg "service_address cfg"] by metis
  let ?s = "ServiceInstance_new\<lparr>service_id := Some i\<rparr>"
  have main: "primary_main cfg scfg answers v = Some (primary_boot cfg v ?s, ?s)"
    by (simp add: primary_main_def service_wrap_def reg)
  have id: "getId ?s = Inr i" by (simp add: getId_def)
  note boot = primary_boot_registered [OF id assms(2), of v]
  have "take 2 (init_worker (intVar (worker_env (cfg\<lparr>primary_service_id := i\<rparr>) w v)) ok) =
      [DescribeMetrics, StartVpnWorker w i]" for w
    using assms(1) worker_env_ids [of "cfg\<lparr>primary_service_id := i\<rparr>" w v]
    by (simp add: reads_ints_def init_worker_def numeral_2_eq_2)
  moreover have "reach (primary_started (cfg\<lparr>primary_service_id := i\<rparr>) v)
      (primary_trans (cfg\<lparr>primary_service_id := i\<rparr>)) (fst (primary_boot cfg v ?s))"
    using boot(2) by (rule reach_start)
  ultimately show ?thesis
    using main i boot(1) heartbeats_id [OF id, of scfg patch n]
    unfolding k_def by (simp add: split_def)
qed

definition read_int :: "(string \<times> string) list \<Rightarrow> string \<Rightarrow> int result" where
  "read_int env name =
     (case map_of env name of
        None \<Rightarrow> Inl JsTypeError
      | Some t \<Rightarrow> (case parseInt t of None \<Rightarrow> Inl JsTypeError | Some i \<Rightarrow> Inr i))"

definition demo_service_config :: service_config where
  "demo_service_config = \<lparr> service_sentry_dsn = None, service_api_key = ''svc'', trace_headers = [] \<rparr>"

definition demo_answers :: "nat \<Rightarrow> service_post \<Rightarrow> api_failure + int option" where
  "demo_answers k req = (if k < 2 then Inl (OtherFailure ''down'') else Inr (Some 5))"

theorem primary_boots_witness:
  "\<exists>st outs s. primary_main demo_primary demo_service_config demo_answers False = Some ((st, outs), s) \<and>
     length outs = 4"
proof -
  have "reads_ints read_int" by (simp add: reads_ints_def read_int_def)
  moreover have "0 \<le> instance_count demo_primary" by (simp add: demo_primary_def)
  moreover have "good_answer (demo_answers 2 req)" for req by (simp add: demo_answers_def good_answer_def)
  ultimately show ?thesis
    using primary_boots [of read_int demo_primary, where scfg = demo_service_config
      and answers = demo_answers and v = False]
    by (fastforce simp: demo_primary_def split: option.splits prod.splits)
qed

text \<open>The pool of workers is always complete: from start-up on, whatever messages, signals, scrapes
  and worker exits the primary handles, there is exactly one process for each worker number from
  one to the instance count -- a worker that exits for any reason is replaced at once, and a
  shutdown signal is passed to each of them exactly once.\<close>

theorem worker_pool_complete:
  assumes "reach (primary_started cfg v) (primary_trans cfg) st"
  shows "distinct (cluster_workers st) \<and> set (cluster_workers st) = {1..instance_count cfg} \<and>
    (\<exists>ws. snd (primary_step cfg st PSIGTERM) = map (\<lambda>w. PSend w ''prepareShutdown'') ws \<and>
       distinct ws \<and> set ws = {1..instance_count cfg})"
  using primary_machine.reach_inv [OF assms] by (auto simp: workers_inv_def send_all_def)

theorem worker_pool_complete_witness:
  "set (cluster_workers (fst (fork_workers demo_primary 0 (primary_init False)))) = {1..2}"
proof -
  have "reach (primary_started demo_primary False) (primary_trans demo_primary)
      (fst (fork_workers demo_primary 0 (primary_init False)))"
    by (rule reach_start) (simp add: primary_started_def demo_primary_def)
  from worker_pool_complete [OF this] show ?thesis by (simp add: demo_primary_def)
qed

subsection \<open>Verbosity of restarted workers\<close>

text \<open>A worker that is restarted does not inherit the toggled verbosity: the variable that
  the configuration reads for it, \<open>DEFAULT_VERBOSE_LOGS\<close>, has in the new worker's environment the
  value it has in the primary's own, whatever the primary's current verbosity is.\<close>

theorem restart_keeps_default_verbosity:
  "\<exists>env. snd (on_worker_exit cfg w st) = [PFork env] \<and>
     map_of env ''DEFAULT_VERBOSE_LOGS'' = map_of (process_env cfg) ''DEFAULT_VERBOSE_LOGS'' \<and>
     map_of env ''VPN_VERBOSE_LOGS'' = Some (if primary_verbose st then ''true'' else ''false'')"
  by (simp add: on_worker_exit_def restartWorker_def worker_env_def)

subsection \<open>The metrics endpoint\<close>

text \<open>Adding a sample for a client.\<close>

lemma on_bitrate_lookup:
  "map_of (workerMetrics (on_bitrate uuid rx tx st)) u =
     (if u = uuid
      then Some (case map_of (workerMetrics st) uuid of
             None \<Rightarrow> \<lparr> rxBitrate = [rx], txBitrate = [tx] \<rparr>
           | Some m \<Rightarrow> \<lparr> rxBitrate = rxBitrate m @ [rx], txBitrate = txBitrate m @ [tx] \<rparr>)
      else map_of (workerMetrics st) u)"
  by (auto simp: on_bitrate_def Let_def split: option.splits)

lemma js_sum_some: "js_sum (map Some xs) = Some (sum_list xs)"
proof -
  have "foldl (\<lambda>a b. case (a, b) of (Some x, Some y) \<Rightarrow> Some (x + y) | _ \<Rightarrow> None) (Some a) (map Some xs) =
      Some (a + sum_list xs)" for a :: rat
    by (induction xs arbitrary: a) (simp_all add: add.assoc)
  from this [of 0] show ?thesis by (simp add: js_sum_def)
qed

lemma sum_list_bounds:
  fixes xs :: "rat list"
  assumes "\<forall>x \<in> set xs. lo \<le> x \<and> x \<le> hi"
  shows "of_nat (length xs) * lo \<le> sum_list xs \<and> sum_list xs \<le> of_nat (length xs) * hi"
  using assms by (induction xs) (auto simp: algebra_simps)

lemma mean_bounds:
  assumes "xs \<noteq> []" "\<forall>x \<in> set xs. lo \<le> x \<and> x \<le> hi"
  shows "\<exists>q. mean (map Some xs) = Some q \<and> lo \<le> q \<and> q \<le> hi"
proof -
  have "0 < (of_nat (length xs) :: rat)" using assms(1) by simp
  then show ?thesis
    using sum_list_bounds [OF assms(2)] assms(1)
    by (simp add: mean_def js_sum_some pos_le_divide_eq pos_divide_le_eq mult.commute)
qed

definition histogram_calls :: "primary_out list \<Rightarrow> metric_call list" where
  "histogram_calls outs =
     concat (map (\<lambda>o1. case o1 of PMetric (MHistogram n q) \<Rightarrow> [MHistogram n q] | _ \<Rightarrow> []) outs)"

lemma histogram_calls_append [simp]: "histogram_calls (a @ b) = histogram_calls a @ histogram_calls b"
  by (simp add: histogram_calls_def)

lemma histogram_calls_samples [simp]: "histogram_calls (map PMetric (scrape_samples st)) = scrape_samples st"
proof -
  have "histogram_calls (map PMetric (concat (map (\<lambda>(uuid, m).
        [MHistogram SessionRxBitrate (mean (rxBitrate m)), MHistogram SessionTxBitrate (mean (txBitrate m))]) ms))) =
      concat (map (\<lambda>(uuid, m).
        [MHistogram SessionRxBitrate (mean (rxBitrate m)), MHistogram SessionTxBitrate (mean (txBitrate m))]) ms)"
    for ms :: "(string \<times> worker_metric) list"
    by (induction ms) (auto simp: histogram_calls_def)
  then show ?thesis by (simp add: scrape_samples_def)
qed

text \<open>What a successful scrape observes: one sample per client and direction, the mean of the
  bitrates that the client's worker reported since the last scrape, which lies between the
  smallest and the largest of them; afterwards the samples are gone, so that the next scrape
  does not observe them again.\<close>

theorem scrape_observes_means:
  assumes "(uuid, m) \<in> set (workerMetrics st)" and "rxBitrate m = map Some xs" and "xs \<noteq> []"
    and "\<forall>x \<in> set xs. lo \<le> x \<and> x \<le> hi"
  shows "\<exists>q st' outs.
    run_events (primary_step cfg) st [PScrapeStart, PScrapeEnd True, PScrapeStart] = (st', outs) \<and>
    workerMetrics st' = [] \<and> histogram_calls outs = scrape_samples st \<and>
    length (scrape_samples st) = 2 * length (workerMetrics st) \<and>
    MHistogram SessionRxBitrate (Some q) \<in> set (histogram_calls outs) \<and> lo \<le> q \<and> q \<le> hi"
proof -
  obtain q where q: "mean (rxBitrate m) = Some q" "lo \<le> q" "q \<le> hi"
    using mean_bounds [OF assms(3,4)] assms(2) by auto
  then have "MHistogram SessionRxBitrate (Some q) \<in> set (scrape_samples st)"
    using assms(1) by (force simp: scrape_samples_def)
  moreover have "length (scrape_samples st) = 2 * length (workerMetrics st)"
    by (simp add: scrape_samples_def length_concat o_def split_def sum_list_triv)
  moreover have "run_events (primary_step cfg) st [PScrapeStart, PScrapeEnd True, PScrapeStart] =
      (st\<lparr>workerMetrics := []\<rparr>, map PMetric (scrape_samples st) @
        [PReply 200, PMetric (MReset SessionRxBitrate), PMetric (MReset SessionTxBitrate)])"
    by (simp add: scrape_end_def scrape_samples_def [of "st\<lparr>workerMetrics := []\<rparr>"])
  moreover have "histogram_calls [PReply 200, PMetric (MReset SessionRxBitrate), PMetric (MReset SessionTxBitrate)] = []"
    by (simp add: histogram_calls_def)
  ultimately show ?thesis
    using q(2,3) by (intro exI [of _ q] exI conjI) auto
qed

definition demo_metrics :: primary_state where
  "demo_metrics =
     \<lparr> workerMetrics = [(''abc'', \<lparr> rxBitrate = [Some 10, Some 30], txBitrate = [Some 1, Some 2] \<rparr>)],
       primary_verbose = False, workerStates = [], cluster_workers = [1, 2] \<rparr>"

theorem scrape_observes_means_witness:
  "\<exists>q st' outs.
    run_events (primary_step demo_primary) demo_metrics [PScrapeStart, PScrapeEnd True, PScrapeStart] = (st', outs) \<and>
    workerMetrics st' = [] \<and> MHistogram SessionRxBitrate (Some q) \<in> set (histogram_calls outs) \<and>
    10 \<le> q \<and> q \<le> 30"
  using scrape_observes_means [of "''abc''" "\<lparr> rxBitrate = [Some 10, Some 30], txBitrate = [Some 1, Some 2] \<rparr>"
      demo_metrics "[10, 30]" 10 30 demo_primary]
  by (auto simp: demo_metrics_def)

text \<open>C38. Where samples are counted twice or not at all.  A scrape that fails leaves its samples both
  in the histograms and in the map, so the next scrape adds them a second time; and a sample
  that arrives while a scrape is waiting for the registries is discarded by the clearing that
  follows, without having been observed.\<close>

theorem scrape_miscounts:
  "histogram_calls (snd (run_events (primary_step cfg) st
      [PScrapeStart, PScrapeEnd False, PScrapeStart, PScrapeEnd True])) =
     scrape_samples st @ scrape_samples st \<and>
   histogram_calls (snd (run_events (primary_step cfg) st
      [PScrapeStart, PBitrate uuid rx tx, PScrapeEnd True, PScrapeStart, PScrapeEnd True])) =
     scrape_samples st"
proof -
  have none: "histogram_calls [PReply 500] = []"
    "histogram_calls [PReply 200, PMetric (MReset SessionRxBitrate), PMetric (MReset SessionTxBitrate)] = []"
    by (simp_all add: histogram_calls_def)
  have empty: "scrape_samples (st'\<lparr>workerMetrics := []\<rparr>) = []" for st' :: primary_state
    by (simp add: scrape_samples_def)
  let ?ok = "[PReply 200, PMetric (MReset SessionRxBitrate), PMetric (MReset SessionTxBitrate)]"
  have "snd (run_events (primary_step cfg) st [PScrapeStart, PScrapeEnd False, PScrapeStart, PScrapeEnd True]) =
      map PMetric (scrape_samples st) @ [PReply 500] @ map PMetric (scrape_samples st) @ ?ok"
    by (simp add: scrape_end_def)
  moreover have "snd (run_events (primary_step cfg) st
      [PScrapeStart, PBitrate uuid rx tx, PScrapeEnd True, PScrapeStart, PScrapeEnd True]) =
      map PMetric (scrape_samples st) @ ?ok @ ?ok"
    by (simp add: scrape_end_def empty)
  ultimately show ?thesis by (simp only: histogram_calls_append histogram_calls_samples none append_Nil append_Nil2)
qed

subsection \<open>Fetching the workers' metrics\<close>

definition fetches_inv :: "fetches \<Rightarrow> bool" where
  "fetches_inv f \<longleftrightarrow> outstanding f = set_option (inProgress f) \<and> set (awaiting f) = set_option (inProgress f)"

interpretation fetch_machine: machine_invariant fetch_step fetches_inv
proof
  fix f ev
  assume "fetches_inv f"
  then show "fetches_inv (fst (fetch_step f ev))"
    by (cases ev; cases "inProgress f")
      (auto simp: fetches_inv_def getClusterMetrics_def fetch_settled_def)
qed

text \<open>Fetches do not stack up: whatever calls and answers there were, at most one fetch is
  outstanding, a further call while it is outstanding starts no other, and when it settles every
  waiting call continues.\<close>

theorem single_fetch:
  assumes "run_events fetch_step fetches_init evs = (f, outs)"
  shows "(inProgress f = None \<and> outstanding f = {} \<and> awaiting f = [] \<or>
     (\<exists>p. inProgress f = Some p \<and> outstanding f = {p} \<and> awaiting f \<noteq> [] \<and>
        outstanding (fst (fetch_step f FetchCall)) = {p} \<and>
        snd (fetch_step f (FetchSettled p)) = [length (awaiting f)] \<and>
        awaiting (fst (fetch_step f (FetchSettled p))) = []))"
proof -
  have "fetches_inv fetches_init" by (simp add: fetches_inv_def fetches_init_def)
  then have inv: "fetches_inv f" using fetch_machine.run_inv [of fetches_init evs] assms by simp
  show ?thesis
  proof (cases "inProgress f")
    case None
    then show ?thesis using inv by (simp add: fetches_inv_def)
  next
    case (Some p)
    then have all: "\<forall>q \<in> set (awaiting f). q = p" and out: "outstanding f = {p}" and "awaiting f \<noteq> []"
      using inv by (auto simp: fetches_inv_def)
    moreover have "filter (\<lambda>q. q = p) (awaiting f) = awaiting f" "filter (\<lambda>q. q \<noteq> p) (awaiting f) = []"
      using all by (auto intro: filter_True)
    ultimately show ?thesis
      using Some by (simp add: getClusterMetrics_def fetch_settled_def)
  qed
qed

end
