(* ===== verification/Drain.thy ===== *)
theory Drain
  imports Vpn_Worker
begin

text \<open>
  What a drain of \<^verbatim>\<open>src/vpn-worker.ts\<close> guarantees when it does not run undisturbed: between its
  steps clients connect, byte counts arrive, other drains start.  Phases are ordered by their
  progress; a drain never goes back, and when it reports, every client that the worker knows at
  that moment has been told to disconnect.
\<close>

subsection \<open>Progress of a drain\<close>

fun drain_rank :: "drain_phase \<Rightarrow> nat \<times> nat" where
  "drain_rank AwaitHaproxy = (0, 0)"
| "drain_rank (Killing pos delay) = (1, pos)"
| "drain_rank Signalled = (2, 0)"
| "drain_rank Exited = (3, 0)"

instantiation drain_phase :: preorder
begin

definition less_eq_drain_phase :: "drain_phase \<Rightarrow> drain_phase \<Rightarrow> bool" where
  "p \<le> q \<longleftrightarrow> fst (drain_rank p) < fst (drain_rank q) \<or>
     fst (drain_rank p) = fst (drain_rank q) \<and> snd (drain_rank p) \<le> snd (drain_rank q)"

definition less_drain_phase :: "drain_phase \<Rightarrow> drain_phase \<Rightarrow> bool" where
  "p < q \<longleftrightarrow> p \<le> q \<and> \<not> q \<le> (p :: drain_phase)"

instance
  by standard (auto simp: less_eq_drain_phase_def less_drain_phase_def)

end

lemma drain_phase_step_progress: "p \<noteq> Exited \<Longrightarrow> p < fst (drain_phase_step cfg st p)"
  by (cases p) (auto simp: drain_phase_step_def less_drain_phase_def less_eq_drain_phase_def)

lemma drain_phase_step_mono: "p \<le> fst (drain_phase_step cfg st p)"
proof (cases "p = Exited")
  case True
  then show ?thesis by (simp add: drain_phase_step_def)
next
  case False
  then show ?thesis using drain_phase_step_progress order.strict_implies_order by blast
qed

text \<open>Which events move a drain: starting one adds it at the end, and only its own step changes it.\<close>

lemma start_drain_drains [simp]: "drains (fst (start_drain cfg st)) = drains st @ [AwaitHaproxy]"
  by (simp add: start_drain_def)

lemma drain_step_drains:
  assumes "i < length (drains st)" "drains st ! i \<noteq> AwaitHaproxy \<or> ok"
  shows "drains (fst (drain_step cfg i ok st)) = (drains st)[i := fst (drain_phase_step cfg st (drains st ! i))]"
  using assms by (simp add: drain_step_moves)

lemma step_drains:
  assumes "\<forall>i ok. ev \<noteq> WDrain i ok"
  shows "drains (fst (worker_step cfg st ev)) \<in> {drains st, drains st @ [AwaitHaproxy]}"
  using assms
  by (cases ev)
    (auto simp: on_established_def writeBandwidthMetrics_def on_log_def fatalErrorHandler_def on_toggle_def
      on_prepare_shutdown_def Let_def split: option.splits if_splits)

text \<open>No drain ever goes back.\<close>

theorem drains_never_go_back:
  assumes "i < length (drains st)"
  shows "drains st ! i \<le> drains (fst (worker_step cfg st ev)) ! i"
proof (cases "\<exists>j ok. ev = WDrain j ok")
  case False
  then show ?thesis using step_drains [of ev cfg st] assms by (auto simp: nth_append)
next
  case True
  then obtain j ok where ev: "ev = WDrain j ok" by blast
  show ?thesis
  proof (cases rule: drain_step_cases [of st j cfg ok])
    case missing
    then show ?thesis using ev by simp
  next
    case rejected
    then show ?thesis
      using ev assms by (cases "i = j") (auto simp: start_drain_def nth_append less_eq_drain_phase_def)
  next
    case moves
    then show ?thesis using ev assms drain_phase_step_mono by (cases "i = j") simp_all
  qed
qed

subsection \<open>What a report means\<close>

definition uuids :: "worker_state \<Rightarrow> string list" where
  "uuids w = map (\<lambda>x. entry_uuid (snd x)) (clientCache w)"

text \<open>A session starts under a number not seen before.\<close>

definition fresh_session :: "worker_state \<Rightarrow> worker_event \<Rightarrow> bool" where
  "fresh_session w ev \<longleftrightarrow>
     (case ev of WEstablished c as env now \<Rightarrow> c \<notin> fst ` set (clientCache w) | _ \<Rightarrow> True)"

text \<open>A worker with everything it has put out so far.\<close>

inductive worker_trans ::
  "worker_config \<Rightarrow> worker_state \<times> worker_out list \<Rightarrow> worker_event \<Rightarrow> worker_state \<times> worker_out list \<Rightarrow> bool"
  for cfg :: worker_config where
  worker_trans_step: "fresh_session w ev \<Longrightarrow> worker_step cfg w ev = (w', new) \<Longrightarrow>
    worker_trans cfg (w, outs) ev (w', outs @ new)"

definition worker_start :: "bool \<Rightarrow> worker_state \<times> worker_out list \<Rightarrow> bool" where
  "worker_start v s \<longleftrightarrow> s = (worker_init v, [])"

text \<open>Once a drain kills clients, HAProxy has been told, and the clients before the position of the
  drain have been told to disconnect.\<close>

definition phase_ok :: "worker_config \<Rightarrow> string list \<Rightarrow> worker_out list \<Rightarrow> drain_phase \<Rightarrow> bool" where
  "phase_ok cfg us outs p \<longleftrightarrow>
     (case p of
        Killing pos delay \<Rightarrow>
          drain_command cfg \<in> set outs \<and>
          pos \<le> length us \<and> (\<forall>u \<in> set (take pos us). WExec (killClient u) \<in> set outs)
      | _ \<Rightarrow> True)"

definition kill_inv :: "worker_config \<Rightarrow> worker_state \<times> worker_out list \<Rightarrow> bool" where
  "kill_inv cfg s \<longleftrightarrow> (\<forall>p \<in> set (drains (fst s)). phase_ok cfg (uuids (fst s)) (snd s) p)"

lemma phase_ok_mono: "phase_ok cfg us outs p \<Longrightarrow> phase_ok cfg (us @ vs) (outs @ new) p"
  by (auto simp: phase_ok_def split: drain_phase.splits)

text \<open>The list of clients only grows, at its end.\<close>

lemma map_update_same:
  assumes "map_of al k = Some e" "f e' = f e"
  shows "map (\<lambda>x. f (snd x)) (AList.update k e' al) = map (\<lambda>x. f (snd x)) al"
  using assms
proof (induction al)
  case (Cons x al)
  then show ?case by (cases x) (auto split: if_splits)
qed simp

lemma uuids_grow:
  assumes "fresh_session w ev"
  shows "\<exists>us. uuids (fst (worker_step cfg w ev)) = uuids w @ us"
proof (cases "accounting ev")
  case False
  then have "clientCache (fst (worker_step cfg w ev)) = clientCache w"
    using other_event_quiet [of ev cfg w] by (simp add: prod_eq_iff)
  then show ?thesis by (simp add: uuids_def)
next
  case True
  then consider (est) c as env now cn where "ev = WEstablished c as env now" "established_name as env = Some cn"
    | (count) c rx tx now where "ev = WBytecount c rx tx now"
    unfolding accounting_def by blast
  then show ?thesis
  proof cases
    case est
    then show ?thesis
      using assms by (simp add: fresh_session_def on_established_def uuids_def update_fresh)
  next
    case count
    show ?thesis
    proof (cases "map_of (clientCache w) c")
      case None
      then show ?thesis using count by (simp add: writeBandwidthMetrics_def uuids_def)
    next
      case (Some e)
      then show ?thesis
        using count map_update_same [OF Some, of entry_uuid "e\<lparr>entry_received := rx, entry_sent := tx, entry_ts := now\<rparr>"]
        by (simp add: writeBandwidthMetrics_def Let_def uuids_def)
    qed
  qed
qed

lemma phase_step_ok:
  assumes "phase_ok cfg (uuids w) outs p"
  shows "phase_ok cfg (uuids w) (outs @ phase_outs cfg w p) (fst (drain_phase_step cfg w p))"
  using assms
  by (auto simp: drain_phase_step_def phase_outs_def phase_ok_def uuids_def take_Suc_conv_app_nth
      split: drain_phase.splits if_splits)

text \<open>What has been put out before the report.\<close>

lemma report_after_command:
  assumes "xs @ drain_done cfg = pre @ WDrained i # post" "\<forall>j. WDrained j \<notin> set xs"
  shows "xs = pre"
  using assms
  by (auto simp: drain_done_def append_eq_append_conv2 append_eq_Cons_conv Cons_eq_append_conv split: if_splits)

lemma phase_step_report:
  assumes "phase_ok cfg (uuids w) outs p" "phase_outs cfg w p = pre @ WDrained i # post"
  shows "drain_command cfg \<in> set (outs @ pre) \<and>
    (\<forall>u \<in> set (uuids w). WExec (killClient u) \<in> set (outs @ pre))"
proof -
  have "\<exists>j. WDrained j \<in> set (phase_outs cfg w p)" using assms(2) by auto
  then consider "p = AwaitHaproxy" "clientCache w = []" "phase_outs cfg w p = [drain_command cfg] @ drain_done cfg"
    | pos d where "p = Killing pos d" "length (uuids w) \<le> pos"
    by (cases p) (auto simp: phase_outs_def drain_phase_step_def drain_command_def uuids_def split: if_splits)
  then show ?thesis
  proof cases
    case 1
    then have "[drain_command cfg] = pre"
      using report_after_command [of "[drain_command cfg]" cfg pre i post] assms(2)
      by (simp add: drain_command_def)
    then show ?thesis using 1(2) by (auto simp: uuids_def)
  next
    case 2
    then show ?thesis using assms(1) by (auto simp: phase_ok_def)
  qed
qed

text \<open>Where the phases after a step come from, and who reports.\<close>

lemma step_started:
  assumes "\<forall>i ok. ev \<noteq> WDrain i ok" "worker_step cfg w ev = (w', new)"
  shows "drains w' \<in> {drains w, drains w @ [AwaitHaproxy]} \<and> (\<forall>i. WDrained i \<notin> set new)"
  using assms
  by (cases ev)
    (auto simp: on_established_def writeBandwidthMetrics_def on_log_def fatalErrorHandler_def on_toggle_def
      on_prepare_shutdown_def start_drain_def Let_def split: option.splits if_splits)

lemma step_phases:
  assumes "worker_step cfg w ev = (w', new)"
  shows "(\<forall>p \<in> set (drains w'). p \<in> set (drains w) \<or> p = AwaitHaproxy \<or> p = Exited \<or>
      (\<exists>q \<in> set (drains w). p = fst (drain_phase_step cfg w q) \<and> new = phase_outs cfg w q)) \<and>
    ((\<exists>i. WDrained i \<in> set new) \<longrightarrow> (\<exists>q \<in> set (drains w). new = phase_outs cfg w q))"
proof (cases "\<exists>j ok. ev = WDrain j ok")
  case False
  then show ?thesis using step_started [of ev cfg w w' new] assms by auto
next
  case True
  then obtain j ok where ev: "ev = WDrain j ok" by blast
  show ?thesis
  proof (cases rule: drain_step_cases [of w j cfg ok])
    case missing
    then show ?thesis using assms ev by auto
  next
    case rejected
    then show ?thesis
      using assms ev set_update_subset_insert [of "drains w" j Exited] by (auto simp: start_drain_def)
  next
    case moves
    let ?p = "fst (drain_phase_step cfg w (drains w ! j))"
    have "set (drains w') \<subseteq> insert ?p (set (drains w))" "new = phase_outs cfg w (drains w ! j)"
      "drains w ! j \<in> set (drains w)"
      using assms ev moves set_update_subset_insert [of "drains w" j ?p] by auto
    then show ?thesis by auto
  qed
qed

interpretation drain_machine: transition_invariant "worker_start v" "worker_trans cfg" "kill_inv cfg"
proof
  fix s
  assume "worker_start v s"
  then show "kill_inv cfg s" by (simp add: worker_start_def kill_inv_def worker_init_def)
next
  fix s ev t
  assume inv: "kill_inv cfg s" and "worker_trans cfg s ev t"
  then obtain w outs w' new where s: "s = (w, outs)" and t: "t = (w', outs @ new)"
    and fresh: "fresh_session w ev" and step: "worker_step cfg w ev = (w', new)"
    by (auto elim: worker_trans.cases)
  have old: "phase_ok cfg (uuids w) outs q" if "q \<in> set (drains w)" for q
    using inv s that by (simp add: kill_inv_def)
  obtain us where us: "uuids w' = uuids w @ us" using uuids_grow [OF fresh, of cfg] step by auto
  have "phase_ok cfg (uuids w') (outs @ new) p" if p: "p \<in> set (drains w')" for p
  proof -
    consider "p \<in> set (drains w)" | "p = AwaitHaproxy \<or> p = Exited"
      | q where "q \<in> set (drains w)" "p = fst (drain_phase_step cfg w q)" "new = phase_outs cfg w q"
      using step_phases [OF step] p by blast
    then show ?thesis
    proof cases
      case 1
      then show ?thesis unfolding us by (intro phase_ok_mono old)
    next
      case 2
      then show ?thesis by (auto simp: phase_ok_def)
    next
      case 3
      from phase_ok_mono [OF phase_step_ok [OF old [OF 3(1)]], of us "[]"]
      show ?thesis unfolding us 3(2,3) by simp
    qed
  qed
  then show "kill_inv cfg t" by (simp add: kill_inv_def t)
qed

text \<open>C10. A worker that reports that it has drained has told every client to disconnect.  However a drain
  is interleaved with new clients, byte counts, log lines, signals, messages, failing connections
  to HAProxy and other drains, as long as OpenVPN gives each new session a number that it has not
  used before: by the time the worker reports, it has written the drain command to HAProxy's
  socket, and it has issued the disconnect command for every client that it knows at that moment.\<close>

theorem report_means_disconnected:
  assumes "reach (worker_start v) (worker_trans cfg) (w, outs)"
    and "worker_step cfg w ev = (w', pre @ WDrained i # post)"
  shows "drain_command cfg \<in> set (outs @ pre) \<and>
    (\<forall>(c, e) \<in> set (clientCache w). WExec (killClient (entry_uuid e)) \<in> set (outs @ pre))"
proof -
  have inv: "kill_inv cfg (w, outs)" by (rule drain_machine.reach_inv [OF assms(1)])
  obtain q where q: "q \<in> set (drains w)" "phase_outs cfg w q = pre @ WDrained i # post"
    using step_phases [OF assms(2)] by auto
  then have "phase_ok cfg (uuids w) outs q" using inv by (simp add: kill_inv_def)
  from phase_step_report [OF this q(2)] show ?thesis by (auto simp: uuids_def)
qed

text \<open>A drain of one client during which a second one connects.\<close>

fun fresh_run :: "worker_config \<Rightarrow> worker_state \<Rightarrow> worker_event list \<Rightarrow> bool" where
  "fresh_run cfg w [] = True"
| "fresh_run cfg w (ev # evs) = (fresh_session w ev \<and> fresh_run cfg (fst (worker_step cfg w ev)) evs)"

lemma run_reach:
  assumes "reach (worker_start v) (worker_trans cfg) (w, outs)" "fresh_run cfg w evs"
    and "run_events (worker_step cfg) w evs = (w', new)"
  shows "reach (worker_start v) (worker_trans cfg) (w', outs @ new)"
  using assms
proof (induction evs arbitrary: w outs new)
  case (Cons ev evs)
  obtain w1 o1 where step: "worker_step cfg w ev = (w1, o1)" by fastforce
  obtain o2 where rest: "run_events (worker_step cfg) w1 evs = (w', o2)" "new = o1 @ o2"
    using Cons.prems(3) step by (auto split: prod.splits)
  have "worker_trans cfg (w, outs) ev (w1, outs @ o1)"
    using Cons.prems(2) step by (intro worker_trans_step) auto
  then have "reach (worker_start v) (worker_trans cfg) (w1, outs @ o1)" by (rule reach_step [OF Cons.prems(1)])
  then have "reach (worker_start v) (worker_trans cfg) (w', (outs @ o1) @ o2)"
    using Cons.prems(2) step rest(1) by (intro Cons.IH) simp_all
  then show ?case by (simp add: rest(2))
qed simp

definition demo_drain :: "worker_event list" where
  "demo_drain =
     [WEstablished (Some 0) [] [(''common_name'', Some ''abc'')] 100, WSignal, WDrain 0 True, WDrain 0 True,
      WEstablished (Some 1) [] [(''common_name'', Some ''def'')] 101, WBytecount (Some 0) (Some 5) (Some 6) 102,
      WDrain 0 True]"

theorem report_means_disconnected_witness:
  "let r = run_events (worker_step demo_worker) (worker_init False) demo_drain in
   snd (worker_step demo_worker (fst r) (WDrain 0 True)) = [WDrained 1, WWait 10000] \<and>
   map (\<lambda>x. entry_uuid (snd x)) (clientCache (fst r)) = [''abc'', ''def''] \<and>
   WHaproxy ''set server vpn-workers/vpn1 state drain;'' \<in> set (snd r) \<and>
   WExec ''kill abc'' \<in> set (snd r) \<and> WExec ''kill def'' \<in> set (snd r)"
proof -
  define r where "r = run_events (worker_step demo_worker) (worker_init False) demo_drain"
  have "reach (worker_start False) (worker_trans demo_worker) (worker_init False, [])"
    by (rule reach_start) (simp add: worker_start_def)
  moreover have "fresh_run demo_worker (worker_init False) demo_drain" by code_simp
  ultimately have reached: "reach (worker_start False) (worker_trans demo_worker) (fst r, snd r)"
    using run_reach [of False demo_worker "worker_init False" "[]" demo_drain "fst r" "snd r"] by (simp add: r_def)
  have cache: "clientCache (fst r) =
      [(Some 0, \<lparr> entry_uuid = ''abc'', entry_ts = 102, entry_received = Some 5, entry_sent = Some 6 \<rparr>),
       (Some 1, \<lparr> entry_uuid = ''def'', entry_ts = 101, entry_received = Some 0, entry_sent = Some 0 \<rparr>)]"
    unfolding r_def by code_simp
  have outs: "snd (worker_step demo_worker (fst r) (WDrain 0 True)) = [WDrained 1, WWait 10000]"
    and cmd: "drain_command demo_worker = WHaproxy ''set server vpn-workers/vpn1 state drain;''"
    unfolding r_def by code_simp+
  then have "worker_step demo_worker (fst r) (WDrain 0 True) =
      (fst (worker_step demo_worker (fst r) (WDrain 0 True)), [] @ WDrained 1 # [WWait 10000])"
    by (simp only: prod_eq_iff fst_conv snd_conv append_Nil)
  from report_means_disconnected [OF reached this] show ?thesis
    unfolding r_def [symmetric] Let_def using cache outs by (simp add: killClient_def cmd)
qed

end
