(* ===== verification/Cluster.thy ===== *)
theory Cluster
  imports Vpn_Worker Init_Primary
begin

text \<open>
  The primary process of \<^verbatim>\<open>src/init-primary.ts\<close> and its workers of \<^verbatim>\<open>src/vpn-worker.ts\<close> as one
  system of communicating processes.

  Each worker has a queue of messages from the primary and a queue of messages to it; queues of
  different workers are independent, so everything interleaves.  A worker that ends stays gone
  until the primary handles its exit and forks a new one, which starts with no clients and an
  empty queue.  A worker listens for \<open>toggleVerbosity\<close> from the beginning, but for
  \<open>prepareShutdown\<close> only once its start-up is complete.  Two pieces of history are kept: which
  workers have ever reported that they drained, and whether the primary has exited.
\<close>

subsection \<open>Messages between the processes\<close>

text \<open>What a worker's outputs put on the wire, and which of the worker's events a message is; \<open>None\<close>
  when no listener reacts to it.\<close>

fun to_primary :: "worker_out \<Rightarrow> primary_event list" where
  "to_primary (WBitrate uuid rx tx) = [PBitrate uuid rx tx]"
| "to_primary (WDrained i) = [PDrain i True]"
| "to_primary _ = []"

definition on_message :: "bool \<Rightarrow> string \<Rightarrow> worker_event option" where
  "on_message ready msg =
     (if msg = ''toggleVerbosity'' then Some WToggle
      else if msg = ''prepareShutdown'' \<and> ready then Some WPrepareShutdown
      else None)"

fun sent_to :: "int \<Rightarrow> primary_out \<Rightarrow> string list" where
  "sent_to i (PSend j msg) = (if j = i then [msg] else [])"
| "sent_to i _ = []"

fun is_exit :: "worker_out \<Rightarrow> bool" where
  "is_exit (WExit c) = True"
| "is_exit _ = False"

fun exit_of :: "primary_out \<Rightarrow> int option" where
  "exit_of (PExit c) = Some c"
| "exit_of _ = None"

fun drained_by :: "worker_out \<Rightarrow> int list" where
  "drained_by (WDrained i) = [i]"
| "drained_by _ = []"

subsection \<open>The system\<close>

record cluster =
  cl_primary :: primary_state
  cl_workers :: "int \<Rightarrow> worker_state"
  cl_inbox :: "int \<Rightarrow> string list"
  cl_outbox :: "int \<Rightarrow> primary_event list"
  cl_ready :: "int set"
  cl_gone :: "int set"
  cl_drained :: "int set"
  cl_exit :: "int option"

datatype cluster_event =
    ClPrimary primary_event
  | ClDeliver int
  | ClLocal int worker_event
  | ClReady int
  | ClReport int
  | ClRestart int

definition run_worker :: "(int \<Rightarrow> worker_config) \<Rightarrow> int \<Rightarrow> worker_event \<Rightarrow> cluster \<Rightarrow> cluster" where
  "run_worker wc i ev s =
     (let (w, outs) = worker_step (wc i) (cl_workers s i) ev
      in s\<lparr>cl_workers := (cl_workers s)(i := w),
           cl_outbox := (cl_outbox s)(i := cl_outbox s i @ concat (map to_primary outs)),
           cl_gone := (if list_ex is_exit outs then insert i (cl_gone s) else cl_gone s),
           cl_drained := set (concat (map drained_by outs)) \<union> cl_drained s\<rparr>)"

definition run_primary :: "primary_config \<Rightarrow> primary_event \<Rightarrow> cluster \<Rightarrow> cluster" where
  "run_primary cfg ev s =
     (let (p, outs) = primary_step cfg (cl_primary s) ev
      in s\<lparr>cl_primary := p,
           cl_inbox := (\<lambda>i. cl_inbox s i @ concat (map (sent_to i) outs)),
           cl_exit := (case List.map_filter exit_of outs of [] \<Rightarrow> cl_exit s | c # _ \<Rightarrow> Some c)\<rparr>)"

text \<open>The events that come from outside: signals and scrapes for the primary; clients, logs, signals,
  the end of OpenVPN and the progress of drains for a worker.\<close>

definition external_primary :: "primary_event \<Rightarrow> bool" where
  "external_primary ev \<longleftrightarrow> ev \<in> {PSIGUSR2, PSIGTERM, PScrapeStart, PScrapeEnd True, PScrapeEnd False}"

definition external_worker :: "worker_event \<Rightarrow> bool" where
  "external_worker ev \<longleftrightarrow> ev \<noteq> WToggle \<and> ev \<noteq> WPrepareShutdown"

abbreviation alive :: "primary_config \<Rightarrow> cluster \<Rightarrow> int \<Rightarrow> bool" where
  "alive cfg s i \<equiv> i \<in> {1..instance_count cfg} \<and> i \<notin> cl_gone s"

inductive cluster_trans ::
  "primary_config \<Rightarrow> (int \<Rightarrow> worker_config) \<Rightarrow> cluster \<Rightarrow> cluster_event \<Rightarrow> cluster \<Rightarrow> bool"
  for cfg :: primary_config and wc :: "int \<Rightarrow> worker_config" where
  cl_primary: "cl_exit s = None \<Longrightarrow> external_primary ev \<Longrightarrow>
    cluster_trans cfg wc s (ClPrimary ev) (run_primary cfg ev s)"
| cl_deliver: "cl_exit s = None \<Longrightarrow> alive cfg s i \<Longrightarrow> cl_inbox s i = msg # rest \<Longrightarrow>
    on_message (i \<in> cl_ready s) msg = Some ev \<Longrightarrow>
    cluster_trans cfg wc s (ClDeliver i) (run_worker wc i ev (s\<lparr>cl_inbox := (cl_inbox s)(i := rest)\<rparr>))"
| cl_ignore: "cl_exit s = None \<Longrightarrow> alive cfg s i \<Longrightarrow> cl_inbox s i = msg # rest \<Longrightarrow>
    on_message (i \<in> cl_ready s) msg = None \<Longrightarrow>
    cluster_trans cfg wc s (ClDeliver i) (s\<lparr>cl_inbox := (cl_inbox s)(i := rest)\<rparr>)"
| cl_local: "cl_exit s = None \<Longrightarrow> alive cfg s i \<Longrightarrow> external_worker ev \<Longrightarrow>
    cluster_trans cfg wc s (ClLocal i ev) (run_worker wc i ev s)"
| cl_started: "cl_exit s = None \<Longrightarrow> alive cfg s i \<Longrightarrow>
    cluster_trans cfg wc s (ClReady i) (s\<lparr>cl_ready := insert i (cl_ready s)\<rparr>)"
| cl_report: "cl_exit s = None \<Longrightarrow> i \<in> {1..instance_count cfg} \<Longrightarrow> cl_outbox s i = ev # rest \<Longrightarrow>
    cluster_trans cfg wc s (ClReport i) (run_primary cfg ev (s\<lparr>cl_outbox := (cl_outbox s)(i := rest)\<rparr>))"
| cl_restart: "cl_exit s = None \<Longrightarrow> i \<in> {1..instance_count cfg} \<Longrightarrow> i \<in> cl_gone s \<Longrightarrow>
    cluster_trans cfg wc s (ClRestart i)
      (run_primary cfg (PWorkerExit i)
        (s\<lparr>cl_workers := (cl_workers s)(i := worker_init v), cl_inbox := (cl_inbox s)(i := []),
           cl_ready := cl_ready s - {i}, cl_gone := cl_gone s - {i}\<rparr>))"

definition cluster_init :: "primary_config \<Rightarrow> bool \<Rightarrow> cluster" where
  "cluster_init cfg v =
     \<lparr> cl_primary = fst (fork_workers cfg 0 (primary_init v)), cl_workers = (\<lambda>i. worker_init v),
       cl_inbox = (\<lambda>i. []), cl_outbox = (\<lambda>i. []), cl_ready = {}, cl_gone = {}, cl_drained = {},
       cl_exit = None \<rparr>"

definition cluster_start :: "primary_config \<Rightarrow> bool \<Rightarrow> cluster \<Rightarrow> bool" where
  "cluster_start cfg v s \<longleftrightarrow> 0 \<le> instance_count cfg \<and> s = cluster_init cfg v"

text \<open>Each worker has its own number.\<close>

definition numbered :: "(int \<Rightarrow> worker_config) \<Rightarrow> bool" where
  "numbered wc \<longleftrightarrow> (\<forall>i. worker_instance (wc i) = i)"

subsection \<open>Invariant\<close>

text \<open>What a worker may have put on the wire when the workers in \<open>D\<close> have drained.\<close>

fun report_ok :: "int set \<Rightarrow> primary_event \<Rightarrow> bool" where
  "report_ok D (PBitrate uuid rx tx) = True"
| "report_ok D (PDrain j f) = (j \<in> D)"
| "report_ok D _ = False"

text \<open>Drain reports on the wire and those the primary has counted come from workers that have drained.\<close>

definition reports_inv :: "primary_config \<Rightarrow> cluster \<Rightarrow> bool" where
  "reports_inv cfg s \<longleftrightarrow>
     (\<forall>i. \<forall>ev \<in> set (cl_outbox s i). report_ok (cl_drained s) ev) \<and>
     fst ` set (workerStates (cl_primary s)) \<subseteq> cl_drained s \<and>
     distinct (map fst (workerStates (cl_primary s))) \<and> cl_drained s \<subseteq> {1..instance_count cfg}"

definition cluster_inv :: "primary_config \<Rightarrow> cluster \<Rightarrow> bool" where
  "cluster_inv cfg s \<longleftrightarrow> workers_inv cfg (cl_primary s) \<and> reports_inv cfg s \<and>
     (cl_exit s \<noteq> None \<longrightarrow> cl_drained s = {1..instance_count cfg} \<and> cl_exit s = Some 0) \<and>
     (cl_exit s = None \<and> 1 \<le> instance_count cfg \<longrightarrow>
        int (length (workerStates (cl_primary s))) < instance_count cfg)"

lemmas cluster_inv_defs = cluster_inv_def reports_inv_def

text \<open>Only its own number is ever reported by a worker.\<close>

lemma worker_step_drained:
  assumes "WDrained j \<in> set (snd (worker_step cfg w ev))"
  shows "j = worker_instance cfg"
  using assms
proof (cases ev)
  case (WEstablished c as env now)
  then show ?thesis
    using assms by (auto simp: on_established_def start_drain_def split: option.splits)
next
  case (WBytecount c rx tx now)
  then show ?thesis
    using assms by (auto simp: writeBandwidthMetrics_def Let_def split: option.splits if_splits)
next
  case (WDrain i ok)
  then show ?thesis
    using assms
    by (cases rule: drain_step_cases [of w i cfg ok])
      (auto simp: start_drain_def phase_outs_def drain_command_def drain_phase_step_def drain_done_def
        split: if_splits drain_phase.splits)
qed (auto simp: on_log_def fatalErrorHandler_def on_toggle_def on_prepare_shutdown_def start_drain_def
    split: if_splits option.splits)

lemma drained_by_iff: "i \<in> set (drained_by out) \<longleftrightarrow> out = WDrained i"
  by (cases out) auto

lemma report_ok_mono: "report_ok D ev \<Longrightarrow> D \<subseteq> E \<Longrightarrow> report_ok E ev"
  by (cases ev) auto

lemma to_primary_ok: "ev \<in> set (to_primary out) \<Longrightarrow> report_ok (set (drained_by out)) ev"
  by (cases out) auto

lemma to_primary_all:
  assumes "ev \<in> set (concat (map to_primary outs))"
  shows "report_ok (set (concat (map drained_by outs)) \<union> D) ev"
proof -
  obtain out where out: "out \<in> set outs" "ev \<in> set (to_primary out)" using assms by auto
  have "set (drained_by out) \<subseteq> set (concat (map drained_by outs)) \<union> D" using out(1) by auto
  then show ?thesis by (rule report_ok_mono [OF to_primary_ok [OF out(2)]])
qed

lemma run_worker_inv:
  assumes "cluster_inv cfg s" "numbered wc" "alive cfg s i" "cl_exit s = None"
  shows "cluster_inv cfg (run_worker wc i ev s)"
proof -
  obtain w outs where step: "worker_step (wc i) (cl_workers s i) ev = (w, outs)" by fastforce
  have own: "j = i" if "WDrained j \<in> set outs" for j
    using worker_step_drained [of j "wc i" "cl_workers s i" ev] that step assms(2)
    by (simp add: numbered_def)
  define D where "D = set (concat (map drained_by outs)) \<union> cl_drained s"
  let ?t = "run_worker wc i ev s"
  have t: "cl_drained ?t = D" "cl_primary ?t = cl_primary s" "cl_exit ?t = cl_exit s"
    "\<And>j. cl_outbox ?t j = cl_outbox s j @ (if j = i then concat (map to_primary outs) else [])"
    by (simp_all add: run_worker_def step D_def)
  have "report_ok D e" if "e \<in> set (cl_outbox s j)" for e j
  proof (rule report_ok_mono)
    show "report_ok (cl_drained s) e" using assms(1) that by (auto simp: cluster_inv_defs)
  qed (simp add: D_def)
  moreover have "report_ok D e" if "e \<in> set (concat (map to_primary outs))" for e
    unfolding D_def by (rule to_primary_all [OF that])
  moreover have "D \<subseteq> {1..instance_count cfg}"
    using own assms(1,3) by (auto simp: D_def cluster_inv_defs drained_by_iff)
  moreover have "fst ` set (workerStates (cl_primary s)) \<subseteq> D"
    using assms(1) by (auto simp: D_def cluster_inv_defs)
  ultimately show ?thesis
    using assms(1,4) unfolding cluster_inv_defs t by (simp add: ball_Un)
qed

lemma primary_step_states:
  assumes "primary_step cfg p ev = (p', outs)" "\<forall>j f. ev \<noteq> PDrain j f"
  shows "workerStates p' = workerStates p \<and> List.map_filter exit_of outs = []"
  using assms
  by (cases ev)
    (auto simp: on_bitrate_def scrape_end_def send_all_def scrape_samples_def on_worker_exit_def
      restartWorker_def Let_def map_filter_def split: if_splits)

lemma primary_step_workers:
  assumes "workers_inv cfg p" "primary_step cfg p ev = (p', outs)"
    and "\<And>i. ev = PWorkerExit i \<Longrightarrow> i \<in> {1..instance_count cfg}"
  shows "workers_inv cfg p'"
proof (cases "\<exists>i. ev = PWorkerExit i")
  case True
  then obtain i where i: "ev = PWorkerExit i" "i \<in> set (cluster_workers p)"
    using assms(1,3) by (auto simp: workers_inv_def)
  then have "primary_trans cfg p (ev, outs) p'"
    using assms(2) by (auto intro: primary_worker_exit)
  then show ?thesis using assms(1) primary_machine.trans_inv by blast
next
  case False
  then have "primary_trans cfg p (ev, outs) p'" using assms(2) by (auto intro: primary_other)
  then show ?thesis using assms(1) primary_machine.trans_inv by blast
qed

text \<open>The count of different workers reaches the instance count only when all of them are counted.\<close>

lemma all_counted:
  fixes N :: int
  assumes "distinct (map fst al)" "fst ` set al \<subseteq> D" "D \<subseteq> {1..N}" "N \<le> int (length al)"
  shows "D = {1..N}"
proof -
  have fin: "finite D" using assms(3) by (rule finite_subset) simp
  have "card {1..N} \<le> length al" using assms(4) by simp
  also have "\<dots> = card (fst ` set al)" by (rule length_distinct_keys [OF assms(1)])
  also have "\<dots> \<le> card D" by (rule card_mono [OF fin assms(2)])
  finally show ?thesis using card_seteq [OF _ assms(3)] by simp
qed

lemma run_primary_inv:
  assumes "cluster_inv cfg s" "cl_exit s = None"
    and exits: "\<And>i. ev = PWorkerExit i \<Longrightarrow> i \<in> {1..instance_count cfg}"
    and drains: "\<And>j f. ev = PDrain j f \<Longrightarrow> j \<in> cl_drained s"
  shows "cluster_inv cfg (run_primary cfg ev s)"
proof -
  obtain p outs where step: "primary_step cfg (cl_primary s) ev = (p, outs)" by fastforce
  have pool: "workers_inv cfg p"
    using primary_step_workers [OF _ step exits] assms(1) by (simp add: cluster_inv_def)
  show ?thesis
  proof (cases "\<exists>j f. ev = PDrain j f")
    case False
    then have "workerStates p = workerStates (cl_primary s)" "List.map_filter exit_of outs = []"
      using primary_step_states [OF step] by blast+
    then show ?thesis using pool assms(1,2) by (simp add: cluster_inv_defs run_primary_def step)
  next
    case True
    then obtain j f where ev: "ev = PDrain j f" by blast
    let ?al = "AList.update j f (workerStates (cl_primary s))"
    have p: "workerStates p = ?al"
      and outs: "outs = (if instance_count cfg \<le> int (length ?al) then [PExit 0] else [])"
      using step ev by (auto simp: on_drain_def Let_def)
    have al: "distinct (map fst ?al)" "fst ` set ?al \<subseteq> cl_drained s"
      using assms(1) drains [OF ev] by (auto simp: cluster_inv_defs distinct_update update_keys_set)
    have "cl_drained s = {1..instance_count cfg}" if "instance_count cfg \<le> int (length ?al)"
      using all_counted [OF al _ that] assms(1) by (simp add: cluster_inv_defs)
    then show ?thesis
      using pool assms(1,2) al
      by (auto simp: cluster_inv_defs run_primary_def step p outs map_filter_def)
  qed
qed

lemma cluster_inv_cong:
  assumes "cluster_inv cfg s" "cl_primary t = cl_primary s" "cl_drained t = cl_drained s" "cl_exit t = cl_exit s"
    and "\<And>i. set (cl_outbox t i) \<subseteq> set (cl_outbox s i)"
  shows "cluster_inv cfg t"
proof -
  have "report_ok (cl_drained t) ev" if "ev \<in> set (cl_outbox t i)" for ev i
    using assms(1,3) subsetD [OF assms(5) that] by (simp add: cluster_inv_defs)
  then show ?thesis using assms(1-4) by (simp add: cluster_inv_defs)
qed

interpretation cluster_machine: transition_invariant "cluster_start cfg v" "cluster_trans cfg wc"
  "\<lambda>s. numbered wc \<longrightarrow> cluster_inv cfg s"
proof
  fix s
  assume "cluster_start cfg v s"
  then show "numbered wc \<longrightarrow> cluster_inv cfg s"
    using primary_machine.start_inv [of cfg v "fst (fork_workers cfg 0 (primary_init v))"]
      fork_workers_from [of 0 cfg "primary_init v"]
    by (auto simp: cluster_start_def cluster_init_def cluster_inv_defs primary_started_def primary_init_def)
next
  fix s l t
  assume "numbered wc \<longrightarrow> cluster_inv cfg s" and step: "cluster_trans cfg wc s l t"
  show "numbered wc \<longrightarrow> cluster_inv cfg t"
  proof
    assume num: "numbered wc"
    with \<open>numbered wc \<longrightarrow> cluster_inv cfg s\<close> have inv: "cluster_inv cfg s" by blast
    from step show "cluster_inv cfg t"
    proof cases
      case (cl_primary ev)
      then show ?thesis
        using inv by (auto intro!: run_primary_inv simp: external_primary_def)
    next
      case (cl_deliver i msg rest ev)
      have "cluster_inv cfg (s\<lparr>cl_inbox := (cl_inbox s)(i := rest)\<rparr>)"
        by (rule cluster_inv_cong [OF inv]) simp_all
      then show ?thesis using cl_deliver num by (auto intro!: run_worker_inv)
    next
      case (cl_ignore i msg rest)
      show ?thesis unfolding cl_ignore(2) by (rule cluster_inv_cong [OF inv]) simp_all
    next
      case (cl_local i ev)
      then show ?thesis using inv num by (auto intro!: run_worker_inv)
    next
      case (cl_started i)
      show ?thesis unfolding cl_started(2) by (rule cluster_inv_cong [OF inv]) simp_all
    next
      case (cl_report i ev rest)
      have "cluster_inv cfg (s\<lparr>cl_outbox := (cl_outbox s)(i := rest)\<rparr>)"
        using cl_report(5) by (intro cluster_inv_cong [OF inv]) auto
      moreover have "report_ok (cl_drained s) ev"
        using inv cl_report(5) by (auto simp: cluster_inv_defs dest: spec [of _ i])
      ultimately show ?thesis
        unfolding cl_report(2) using cl_report(3) by (intro run_primary_inv) auto
    next
      case (cl_restart i v)
      show ?thesis
        unfolding cl_restart(2)
        by (rule run_primary_inv, rule cluster_inv_cong [OF inv]) (use cl_restart in auto)
    qed
  qed
qed

subsection \<open>Runs of the cluster\<close>

text \<open>The workers whose reports the primary has counted.\<close>

definition counted :: "cluster \<Rightarrow> int set" where
  "counted s = fst ` set (workerStates (cl_primary s))"

lemma run_primary_counted:
  "counted (run_primary cfg ev s) = (case ev of PDrain j f \<Rightarrow> insert j (counted s) | _ \<Rightarrow> counted s)"
proof (cases "\<exists>j f. ev = PDrain j f")
  case True
  then obtain j f where "ev = PDrain j f" by blast
  then show ?thesis by (simp add: run_primary_def counted_def on_drain_def Let_def update_keys_set)
next
  case False
  obtain p outs where step: "primary_step cfg (cl_primary s) ev = (p, outs)" by fastforce
  have "workerStates p = workerStates (cl_primary s)" using primary_step_states [OF step] False by blast
  then have "counted (run_primary cfg ev s) = counted s" by (simp add: run_primary_def step counted_def)
  then show ?thesis using False by (auto split: primary_event.split)
qed

lemma run_primary_same [simp]:
  "cl_workers (run_primary cfg ev s) = cl_workers s" "cl_outbox (run_primary cfg ev s) = cl_outbox s"
  "cl_ready (run_primary cfg ev s) = cl_ready s" "cl_gone (run_primary cfg ev s) = cl_gone s"
  by (simp_all add: run_primary_def split_def Let_def)

lemma run_primary_inbox:
  "report_ok D ev \<Longrightarrow> cl_inbox (run_primary cfg ev s) = cl_inbox s"
  by (cases ev) (auto simp: run_primary_def on_drain_def on_bitrate_def Let_def)

subsection \<open>Stopping the cluster\<close>

lemma sigterm_told:
  assumes "workers_inv cfg (cl_primary s)" "i \<in> {1..instance_count cfg}"
  shows "cl_inbox (run_primary cfg PSIGTERM s) i = cl_inbox s i @ [''prepareShutdown'']"
proof -
  have "concat (map (\<lambda>w. sent_to i (PSend w msg)) ws) = (if i \<in> set ws then [msg] else [])"
    if "distinct ws" for ws :: "int list" and msg
    using that by (induction ws) auto
  then show ?thesis
    using assms by (simp add: run_primary_def send_all_def workers_inv_def comp_def)
qed

lemma run_primary_sigterm [simp]:
  "cl_exit (run_primary cfg PSIGTERM s) = cl_exit s"
  "cl_primary (run_primary cfg PSIGTERM s) = cl_primary s"
  by (simp_all add: run_primary_def send_all_def map_filter_def)

text \<open>A worker that has not begun to drain, is up and has handled its messages.\<close>

definition settled_worker :: "primary_config \<Rightarrow> (int \<Rightarrow> worker_config) \<Rightarrow> cluster \<Rightarrow> int \<Rightarrow> bool" where
  "settled_worker cfg wc s i \<longleftrightarrow> i \<notin> cl_gone s \<and> i \<in> cl_ready s \<and> cl_inbox s i = [] \<and>
     drain_bound (cl_workers s i) \<and> drains (cl_workers s i) = [] \<and> has_send (wc i)"

text \<open>The steps that stopping takes: messages are delivered and drains that have begun go on.  No
  signal, no client and no restart is among them.\<close>

definition stopping_event :: "cluster \<Rightarrow> cluster_event \<Rightarrow> bool" where
  "stopping_event s l \<longleftrightarrow>
     (case l of
        ClDeliver i \<Rightarrow> True
      | ClReport i \<Rightarrow> True
      | ClLocal i (WDrain k True) \<Rightarrow>
          k < length (drains (cl_workers s i)) \<and> drains (cl_workers s i) ! k \<noteq> Exited
      | _ \<Rightarrow> False)"

definition stopping_step ::
  "primary_config \<Rightarrow> (int \<Rightarrow> worker_config) \<Rightarrow> cluster \<Rightarrow> cluster \<Rightarrow> bool" where
  "stopping_step cfg wc s t \<longleftrightarrow> (\<exists>l. stopping_event s l \<and> cluster_trans cfg wc s l t)"

text \<open>Everything but the end of a worker's OpenVPN process.\<close>

fun openvpn_runs :: "worker_event \<Rightarrow> bool" where
  "openvpn_runs (WProcessExit pid code sig) = False"
| "openvpn_runs (WProcessError err) = False"
| "openvpn_runs _ = True"

fun no_crash :: "cluster_event \<Rightarrow> bool" where
  "no_crash (ClLocal i ev) = openvpn_runs ev"
| "no_crash _ = True"


text \<open>A drain that has yet to report.\<close>

fun in_progress :: "drain_phase \<Rightarrow> bool" where
  "in_progress AwaitHaproxy = True"
| "in_progress (Killing pos d) = True"
| "in_progress Signalled = False"
| "in_progress Exited = False"

definition draining :: "worker_state \<Rightarrow> bool" where
  "draining w \<longleftrightarrow> list_ex in_progress (drains w)"

lemma phase_outs_report:
  assumes "has_send cfg"
  shows "in_progress p \<Longrightarrow> in_progress (fst (drain_phase_step cfg w p)) \<or>
      WDrained (worker_instance cfg) \<in> set (phase_outs cfg w p)"
    and "fst (drain_phase_step cfg w p) = Signalled \<Longrightarrow>
      WDrained (worker_instance cfg) \<in> set (phase_outs cfg w p)"
    and "list_ex is_exit (phase_outs cfg w p) \<Longrightarrow> p = Signalled"
  using assms
  by (cases p; auto simp: drain_phase_step_def phase_outs_def drain_done_def drain_command_def
      split: if_splits)+

text \<open>A drain that has begun ends with a report, and a worker exits only after one.\<close>

lemma worker_step_draining:
  assumes "openvpn_runs ev" "has_send cfg" "worker_step cfg w ev = (w', outs)"
  shows "(draining w \<longrightarrow> draining w' \<or> WDrained (worker_instance cfg) \<in> set outs) \<and>
    (drain_bound w \<longrightarrow> drain_bound w' \<or> draining w') \<and>
    (Signalled \<in> set (drains w') \<or> list_ex is_exit outs \<longrightarrow>
       Signalled \<in> set (drains w) \<or> WDrained (worker_instance cfg) \<in> set outs)"
proof (cases ev)
  case (WDrain k ok)
  show ?thesis
  proof (cases rule: drain_step_cases [of w k cfg ok])
    case missing
    then show ?thesis using assms(3) WDrain by auto
  next
    case rejected
    then show ?thesis
      using assms(3) WDrain set_update_subset_insert [of "drains w" k Exited]
      by (auto simp: start_drain_def draining_def)
  next
    case moves
    let ?p = "fst (drain_phase_step cfg w (drains w ! k))"
    have w': "w' = w\<lparr>drains := (drains w)[k := ?p]\<rparr>" and outs: "outs = phase_outs cfg w (drains w ! k)"
      using assms(3) WDrain moves(3) by simp_all
    note facts = phase_outs_report [OF assms(2), where p = "drains w ! k" and w = w]
    have "draining w'" if "draining w" "in_progress (drains w ! k) \<longrightarrow> in_progress ?p"
    proof -
      obtain j where j: "j < length (drains w)" "in_progress (drains w ! j)"
        using \<open>draining w\<close> by (auto simp: draining_def list_ex_length)
      then have "in_progress (drains w' ! j)" using that(2) by (cases "j = k") (simp_all add: w')
      then show ?thesis using j(1) by (auto simp: draining_def list_ex_length w')
    qed
    moreover have "Signalled \<in> set (drains w) \<or> ?p = Signalled" if "Signalled \<in> set (drains w')"
      using that set_update_subset_insert [of "drains w" k ?p] by (auto simp: w')
    moreover have "drains w ! k \<in> set (drains w)" using moves(1) by simp
    ultimately show ?thesis using facts by (auto simp: w' outs)
  qed
qed (use assms in
  \<open>auto simp: on_established_def writeBandwidthMetrics_def on_log_def on_toggle_def on_prepare_shutdown_def
    start_drain_def draining_def Let_def split: option.splits if_splits\<close>)

text \<open>A worker that has reported, and one that is on its way to.\<close>

definition drain_reported :: "cluster \<Rightarrow> int \<Rightarrow> bool" where
  "drain_reported s i \<longleftrightarrow> i \<in> counted s \<or> (\<exists>f. PDrain i f \<in> set (cl_outbox s i))"

definition going_down :: "cluster \<Rightarrow> int \<Rightarrow> bool" where
  "going_down s i \<longleftrightarrow> drain_reported s i \<or>
     i \<notin> cl_gone s \<and> i \<in> cl_ready s \<and>
     (draining (cl_workers s i) \<or>
      ''prepareShutdown'' \<in> set (cl_inbox s i) \<and> drain_bound (cl_workers s i))"

definition stop_inv :: "cluster \<Rightarrow> int \<Rightarrow> bool" where
  "stop_inv s i \<longleftrightarrow> going_down s i \<and> (Signalled \<in> set (drains (cl_workers s i)) \<longrightarrow> drain_reported s i)"

lemma run_worker_stop_inv:
  assumes "stop_inv s i" "openvpn_runs ev" "has_send (wc j)" "numbered wc"
  shows "stop_inv (run_worker wc j ev s) i"
proof -
  obtain w outs where step: "worker_step (wc j) (cl_workers s j) ev = (w, outs)" by fastforce
  let ?t = "run_worker wc j ev s"
  have t: "cl_workers ?t = (cl_workers s)(j := w)" "cl_inbox ?t = cl_inbox s" "cl_ready ?t = cl_ready s"
    "cl_outbox ?t = (cl_outbox s)(j := cl_outbox s j @ concat (map to_primary outs))"
    "cl_gone ?t = (if list_ex is_exit outs then insert j (cl_gone s) else cl_gone s)" "counted ?t = counted s"
    by (simp_all add: run_worker_def step counted_def)
  have rep: "drain_reported s i \<Longrightarrow> drain_reported ?t i" by (auto simp: drain_reported_def t)
  have "drain_reported ?t j" if "WDrained j \<in> set outs"
    using that by (force simp: drain_reported_def t)
  then have mine: "drain_reported ?t j" if "WDrained (worker_instance (wc j)) \<in> set outs"
    using that assms(4) by (simp add: numbered_def)
  show ?thesis
  proof (cases "i = j")
    case True
    then show ?thesis
      using assms(1) rep mine worker_step_draining [OF assms(2,3) step]
      by (auto simp: stop_inv_def going_down_def t)
  next
    case False
    then show ?thesis using assms(1) rep by (auto simp: stop_inv_def going_down_def t)
  qed
qed

lemma run_primary_stop_inv:
  assumes "stop_inv s i"
  shows "stop_inv (run_primary cfg ev s) i"
proof -
  have "drain_reported (run_primary cfg ev s) i" if "drain_reported s i"
    using that run_primary_counted [of cfg ev s] by (auto simp: drain_reported_def split: primary_event.splits)
  moreover have "set (cl_inbox s i) \<subseteq> set (cl_inbox (run_primary cfg ev s) i)"
    by (simp add: run_primary_def split_def Let_def)
  ultimately show ?thesis using assms by (auto simp: stop_inv_def going_down_def)
qed

text \<open>The delivery of a message: either it is not needed any more, or it starts the drain.\<close>

lemma deliver_stop_inv:
  assumes "stop_inv s i" "cl_inbox s j = msg # rest" "on_message (j \<in> cl_ready s) msg = Some ev"
    and "has_send (wc j)" "numbered wc"
  shows "stop_inv (run_worker wc j ev (s\<lparr>cl_inbox := (cl_inbox s)(j := rest)\<rparr>)) i"
proof -
  let ?s = "s\<lparr>cl_inbox := (cl_inbox s)(j := rest)\<rparr>"
  have ev: "openvpn_runs ev" using assms(3) by (auto simp: on_message_def split: if_splits)
  show ?thesis
  proof (cases "stop_inv ?s i")
    case True
    then show ?thesis by (rule run_worker_stop_inv [OF _ ev assms(4,5)])
  next
    case False
    then have *: "i = j" "msg = ''prepareShutdown''" "drain_bound (cl_workers s i)" "j \<in> cl_ready s" "j \<notin> cl_gone s"
      "Signalled \<in> set (drains (cl_workers s i)) \<longrightarrow> drain_reported s i"
      using assms(1,2) by (auto simp: stop_inv_def going_down_def drain_reported_def counted_def split: if_splits)
    then have "ev = WPrepareShutdown" using assms(3) by (simp add: on_message_def)
    then show ?thesis
      using * by (auto simp: stop_inv_def going_down_def run_worker_def on_prepare_shutdown_def start_drain_def
          draining_def drain_reported_def counted_def)
  qed
qed

lemma trans_stop_inv:
  assumes "stop_inv s i" "cluster_trans cfg wc s l t" "no_crash l" "numbered wc"
    and "\<And>j. j \<in> {1..instance_count cfg} \<Longrightarrow> has_send (wc j)"
  shows "stop_inv t i"
  using assms(2)
proof cases
  case (cl_primary ev)
  then show ?thesis using assms(1) by (auto intro: run_primary_stop_inv)
next
  case (cl_deliver j msg rest ev)
  then show ?thesis using deliver_stop_inv [OF assms(1) _ _ assms(5,4)] by auto
next
  case (cl_ignore j msg rest)
  then show ?thesis
    using assms(1) by (auto simp: stop_inv_def going_down_def drain_reported_def counted_def on_message_def split: if_splits)
next
  case (cl_local j ev)
  then show ?thesis using assms(3) run_worker_stop_inv [OF assms(1) _ assms(5,4)] by auto
next
  case (cl_started j)
  then show ?thesis using assms(1) by (auto simp: stop_inv_def going_down_def drain_reported_def counted_def)
next
  case (cl_report j ev rest)
  let ?s = "s\<lparr>cl_outbox := (cl_outbox s)(j := rest)\<rparr>"
  have same: "counted ?s = counted s" by (simp add: counted_def)
  have "drain_reported t i" if "drain_reported s i"
    using that cl_report(2,5) run_primary_counted [of cfg ev ?s]
    by (auto simp: drain_reported_def same split: primary_event.splits if_splits)
  moreover have "set (cl_inbox s i) \<subseteq> set (cl_inbox t i)"
    by (simp add: cl_report(2) run_primary_def split_def Let_def)
  ultimately show ?thesis using assms(1) cl_report(2) by (auto simp: stop_inv_def going_down_def)
next
  case (cl_restart j v)
  let ?s = "s\<lparr>cl_workers := (cl_workers s)(j := worker_init v), cl_inbox := (cl_inbox s)(j := []),
     cl_ready := cl_ready s - {j}, cl_gone := cl_gone s - {j}\<rparr>"
  have "stop_inv ?s i"
    using assms(1) cl_restart(5)
    by (auto simp: stop_inv_def going_down_def drain_reported_def counted_def worker_init_def)
  then show ?thesis unfolding cl_restart(2) by (rule run_primary_stop_inv)
qed

text \<open>What is left to do: messages to deliver, reports to handle and drains to finish.  A message may
  start a drain, so it counts for one.\<close>

fun phase_work :: "nat \<Rightarrow> drain_phase \<Rightarrow> nat" where
  "phase_work n AwaitHaproxy = n + 4"
| "phase_work n (Killing pos d) = n - pos + 3"
| "phase_work n Signalled = 1"
| "phase_work n Exited = 0"

definition worker_work :: "worker_state \<Rightarrow> nat" where
  "worker_work w = sum_list (map (phase_work (length (clientCache w))) (drains w))"

definition share :: "cluster \<Rightarrow> int \<Rightarrow> nat" where
  "share s i = length (cl_inbox s i) * (length (clientCache (cl_workers s i)) + 5) +
     length (cl_outbox s i) + worker_work (cl_workers s i)"

definition stop_work :: "primary_config \<Rightarrow> cluster \<Rightarrow> nat" where
  "stop_work cfg s = (\<Sum>i \<in> {1..instance_count cfg}. share s i)"

lemma stop_work_less:
  assumes "i \<in> {1..instance_count cfg}" "share t i < share s i" "\<And>j. j \<noteq> i \<Longrightarrow> share t j = share s j"
  shows "stop_work cfg t < stop_work cfg s"
  unfolding stop_work_def
proof (rule sum_strict_mono_ex1)
  show "\<forall>j \<in> {1..instance_count cfg}. share t j \<le> share s j"
    using assms(2,3) by (metis less_imp_le order_refl)
qed (use assms(1,2) in auto)

lemma phase_step_work:
  assumes "p \<noteq> Exited"
  shows "phase_work (length (clientCache w)) (fst (drain_phase_step cfg w p)) +
    length (concat (map to_primary (phase_outs cfg w p))) < phase_work (length (clientCache w)) p"
  using assms
  by (cases p) (auto simp: drain_phase_step_def phase_outs_def drain_command_def drain_done_def)

lemma sum_list_less_update:
  fixes f :: "'a \<Rightarrow> nat"
  assumes "k < length xs" "f x + m < f (xs ! k)"
  shows "sum_list (map f (xs[k := x])) + m < sum_list (map f xs)"
proof -
  have "sum_list (map f (xs[k := x])) = sum_list (map f xs) + f x - f (xs ! k)"
    using assms(1) sum_list_update [of k "map f xs" "f x"] by (simp add: map_update)
  moreover have "f (xs ! k) \<le> sum_list (map f xs)"
    using elem_le_sum_list [of k "map f xs"] assms(1) by simp
  ultimately show ?thesis using assms(2) by linarith
qed

lemma drain_step_work:
  assumes "k < length (drains w)" "drains w ! k \<noteq> Exited" "worker_step cfg w (WDrain k True) = (w', outs)"
  shows "worker_work w' + length (concat (map to_primary outs)) < worker_work w \<and> clientCache w' = clientCache w"
proof -
  have w': "w' = w\<lparr>drains := (drains w)[k := fst (drain_phase_step cfg w (drains w ! k))]\<rparr>"
    and outs: "outs = phase_outs cfg w (drains w ! k)"
    using assms(1,3) by (simp_all add: drain_step_moves)
  have "phase_work (length (clientCache w)) (fst (drain_phase_step cfg w (drains w ! k))) +
      length (concat (map to_primary outs)) < phase_work (length (clientCache w)) (drains w ! k)"
    unfolding outs by (rule phase_step_work [OF assms(2)])
  from sum_list_less_update [OF assms(1) this] show ?thesis
    unfolding worker_work_def by (simp add: w')
qed

lemma message_work:
  assumes "on_message r msg = Some ev" "worker_step cfg w ev = (w', outs)"
  shows "worker_work w' < worker_work w + (length (clientCache w) + 5) \<and> clientCache w' = clientCache w \<and>
    length (concat (map to_primary outs)) = 0"
  using assms
  by (auto simp: on_message_def on_toggle_def on_prepare_shutdown_def start_drain_def worker_work_def
      split: if_splits)

lemma stopping_step_work:
  assumes "cluster_inv cfg s" "stopping_step cfg wc s t"
  shows "stop_work cfg t < stop_work cfg s"
proof -
  obtain l where l: "stopping_event s l" "cluster_trans cfg wc s l t"
    using assms(2) by (auto simp: stopping_step_def)
  from l(2) show ?thesis
  proof cases
    case (cl_deliver i msg rest ev)
    obtain w outs where step: "worker_step (wc i) (cl_workers s i) ev = (w, outs)" by fastforce
    note work = message_work [OF cl_deliver(6) step]
    have "share t i < share s i" and "\<And>j. j \<noteq> i \<Longrightarrow> share t j = share s j"
      using work cl_deliver(5)
      by (simp_all add: cl_deliver(2) run_worker_def step share_def del: length_concat length_0_conv)
    then show ?thesis using cl_deliver(4) by (intro stop_work_less [of i]) auto
  next
    case (cl_ignore i msg rest)
    then show ?thesis by (intro stop_work_less [of i]) (auto simp: share_def)
  next
    case (cl_local i ev)
    then obtain k where ev: "ev = WDrain k True" "k < length (drains (cl_workers s i))"
      "drains (cl_workers s i) ! k \<noteq> Exited"
      using l(1) by (auto simp: stopping_event_def split: worker_event.splits bool.splits)
    obtain w outs where step: "worker_step (wc i) (cl_workers s i) ev = (w, outs)" by fastforce
    note work = drain_step_work [OF ev(2,3) step [unfolded ev(1)]]
    have "share t i < share s i" and "\<And>j. j \<noteq> i \<Longrightarrow> share t j = share s j"
      using work by (simp_all add: cl_local(2) run_worker_def step share_def)
    then show ?thesis using cl_local(4) by (intro stop_work_less [of i]) auto
  next
    case (cl_report i ev rest)
    have "report_ok (cl_drained s) ev" using assms(1) cl_report(5) by (auto simp: cluster_inv_defs dest: spec [of _ i])
    then have "cl_inbox t = cl_inbox s" unfolding cl_report(2) by (simp add: run_primary_inbox)
    then show ?thesis using cl_report by (intro stop_work_less [of i]) (auto simp: share_def)
  qed (use l(1) in \<open>simp_all add: stopping_event_def\<close>)
qed

text \<open>As long as the primary runs, a stopping step is possible.\<close>

lemma stopping_possible:
  assumes "cluster_inv cfg s" "1 \<le> instance_count cfg" "cl_exit s = None"
    and "\<And>i. i \<in> {1..instance_count cfg} \<Longrightarrow> stop_inv s i"
  shows "\<exists>t. stopping_step cfg wc s t"
proof -
  have "\<not> {1..instance_count cfg} \<subseteq> counted s"
  proof
    assume "{1..instance_count cfg} \<subseteq> counted s"
    then have "card {1..instance_count cfg} \<le> card (counted s)" by (intro card_mono) (simp_all add: counted_def)
    also have "\<dots> = length (workerStates (cl_primary s))"
      using assms(1) length_distinct_keys [of "workerStates (cl_primary s)"]
      by (simp add: counted_def cluster_inv_def reports_inv_def)
    finally show False using assms(1-3) by (auto simp: cluster_inv_def)
  qed
  then obtain i where i: "i \<in> {1..instance_count cfg}" "i \<notin> counted s" by blast
  consider ev rest where "cl_outbox s i = ev # rest"
    | "i \<notin> cl_gone s" "draining (cl_workers s i)"
    | msg rest where "i \<notin> cl_gone s" "cl_inbox s i = msg # rest"
    using assms(4) [OF i(1)] i(2)
    by (cases "cl_outbox s i"; cases "cl_inbox s i") (auto simp: stop_inv_def going_down_def drain_reported_def)
  then show ?thesis
  proof cases
    case 1
    moreover have "stopping_event s (ClReport i)" by (simp add: stopping_event_def)
    ultimately show ?thesis unfolding stopping_step_def using cl_report [OF assms(3) i(1)] by blast
  next
    case 2
    then obtain k where k: "k < length (drains (cl_workers s i))" "in_progress (drains (cl_workers s i) ! k)"
      by (auto simp: draining_def list_ex_length)
    have "cluster_trans cfg wc s (ClLocal i (WDrain k True)) (run_worker wc i (WDrain k True) s)"
      using assms(3) i(1) 2(1) by (intro cl_local) (simp_all add: external_worker_def)
    moreover have "stopping_event s (ClLocal i (WDrain k True))" using k by (auto simp: stopping_event_def)
    ultimately show ?thesis by (auto simp: stopping_step_def)
  next
    case 3
    have "\<exists>t. cluster_trans cfg wc s (ClDeliver i) t"
      using cl_deliver [OF assms(3) _ 3(2)] cl_ignore [OF assms(3) _ 3(2)] i(1) 3(1)
      by (cases "on_message (i \<in> cl_ready s) msg") blast+
    moreover have "stopping_event s (ClDeliver i)" by (simp add: stopping_event_def)
    ultimately show ?thesis unfolding stopping_step_def by blast
  qed
qed

definition cluster_stopping :: "primary_config \<Rightarrow> (int \<Rightarrow> worker_config) \<Rightarrow> cluster \<Rightarrow> bool" where
  "cluster_stopping cfg wc s \<longleftrightarrow> numbered wc \<and> 1 \<le> instance_count cfg \<and> cluster_inv cfg s \<and>
     (\<forall>i \<in> {1..instance_count cfg}. has_send (wc i) \<and> stop_inv s i)"

lemma trans_stopping:
  assumes "cluster_stopping cfg wc s" "cluster_trans cfg wc s l t" "no_crash l"
  shows "cluster_stopping cfg wc t"
  using assms trans_stop_inv [OF _ assms(2,3)] cluster_machine.trans_inv [OF _ assms(2)]
  by (simp add: cluster_stopping_def)

lemma stopping_event_no_crash: "stopping_event s l \<Longrightarrow> no_crash l"
  by (auto simp: stopping_event_def split: cluster_event.splits worker_event.splits)

interpretation shutdown: progress_measure "stopping_step cfg wc" "cluster_stopping cfg wc"
  "\<lambda>s. cl_exit s = Some 0" "stop_work cfg"
proof
  fix s t
  assume inv: "cluster_stopping cfg wc s" and "stopping_step cfg wc s t"
  then show "cluster_stopping cfg wc t"
    using trans_stopping stopping_event_no_crash by (auto simp: stopping_step_def)
  show "stop_work cfg t < stop_work cfg s"
    using inv stopping_step_work [OF _ \<open>stopping_step cfg wc s t\<close>] by (simp add: cluster_stopping_def)
next
  fix s
  assume inv: "cluster_stopping cfg wc s" and "cl_exit s \<noteq> Some 0"
  then have "cl_exit s = None" by (auto simp: cluster_stopping_def cluster_inv_def)
  then show "\<exists>t. stopping_step cfg wc s t"
    using inv by (intro stopping_possible) (simp_all add: cluster_stopping_def)
qed

text \<open>Where stopping begins.\<close>

lemma sigterm_stopping:
  assumes "numbered wc" and "1 \<le> instance_count cfg"
    and "reach (cluster_start cfg v) (cluster_trans cfg wc) s"
    and "\<And>i. i \<in> {1..instance_count cfg} \<Longrightarrow> settled_worker cfg wc s i"
    and "cluster_trans cfg wc s (ClPrimary PSIGTERM) t"
  shows "cluster_stopping cfg wc t"
proof -
  have inv: "cluster_inv cfg s" using cluster_machine.reach_inv [OF assms(3)] assms(1) by blast
  then have inv': "cluster_inv cfg t" using assms(1,5) cluster_machine.trans_inv by blast
  have t: "t = run_primary cfg PSIGTERM s" using assms(5) by (auto elim: cluster_trans.cases)
  have "has_send (wc i) \<and> stop_inv t i" if i: "i \<in> {1..instance_count cfg}" for i
  proof -
    have "''prepareShutdown'' \<in> set (cl_inbox t i)"
      using sigterm_told [OF _ i] inv by (simp add: t cluster_inv_def)
    then show ?thesis
      using assms(4) [OF i] by (simp add: settled_worker_def stop_inv_def going_down_def t)
  qed
  then show ?thesis using assms(1,2) inv' by (simp add: cluster_stopping_def)
qed


text \<open>A cluster of two workers that have started.\<close>

definition demo_cluster :: cluster where
  "demo_cluster = (cluster_init demo_primary False)\<lparr>cl_ready := {1, 2}\<rparr>"

definition demo_workers :: "int \<Rightarrow> worker_config" where
  "demo_workers i = demo_worker\<lparr>worker_instance := i\<rparr>"

lemma demo_numbered: "numbered demo_workers"
  by (simp add: numbered_def demo_workers_def)

lemma demo_cluster_reach: "reach (cluster_start demo_primary False) (cluster_trans demo_primary demo_workers) demo_cluster"
proof -
  let ?i = "cluster_init demo_primary False"
  let ?r = "\<lambda>R. ?i\<lparr>cl_ready := R\<rparr>"
  have start: "cluster_start demo_primary False ?i" by (simp add: cluster_start_def demo_primary_def)
  have "cluster_trans demo_primary demo_workers ?i (ClReady 1) (?i\<lparr>cl_ready := insert 1 (cl_ready ?i)\<rparr>)"
    by (rule cl_started) (simp_all add: cluster_init_def demo_primary_def)
  then have one: "cluster_trans demo_primary demo_workers ?i (ClReady 1) (?r {1})"
    by (simp add: cluster_init_def)
  have "cluster_trans demo_primary demo_workers (?r {1}) (ClReady 2)
      ((?r {1})\<lparr>cl_ready := insert 2 (cl_ready (?r {1}))\<rparr>)"
    by (rule cl_started) (simp_all add: cluster_init_def demo_primary_def)
  then have two: "cluster_trans demo_primary demo_workers (?r {1}) (ClReady 2) (?r {1, 2})"
    by (simp add: insert_commute)
  show ?thesis
    unfolding demo_cluster_def by (rule reach_step [OF reach_step [OF reach_start]], rule start, rule one, rule two)
qed

lemma demo_cluster_settled:
  "i \<in> {1..instance_count demo_primary} \<Longrightarrow> settled_worker demo_primary demo_workers demo_cluster i"
  by (auto simp: settled_worker_def demo_cluster_def cluster_init_def worker_init_def demo_workers_def
      demo_worker_def demo_primary_def)

lemma stopping_reach:
  "(stopping_step cfg wc)\<^sup>*\<^sup>* s t \<Longrightarrow> reach (cluster_start cfg v) (cluster_trans cfg wc) s \<Longrightarrow>
   reach (cluster_start cfg v) (cluster_trans cfg wc) t"
  by (induction rule: rtranclp_induct) (auto simp: stopping_step_def intro: reach_step)


lemma demo_sigterm:
  "cluster_trans demo_primary demo_workers demo_cluster (ClPrimary PSIGTERM)
     (run_primary demo_primary PSIGTERM demo_cluster)"
  by (intro cl_primary) (simp_all add: external_primary_def demo_cluster_def cluster_init_def)

lemma demo_instances: "1 \<le> instance_count demo_primary"
  by (simp add: demo_primary_def)


text \<open>C19. A shutdown can be missed.  A worker registers for the shutdown message only at the end of its
  start-up; when SIGTERM arrives before that, for example while a crashed worker restarts, the
  message is consumed without effect: the worker goes on as if it had not been told, and nothing
  tells it again.\<close>

theorem shutdown_missed:
  assumes "numbered wc" and "reach (cluster_start cfg v) (cluster_trans cfg wc) s" and "cl_exit s = None"
    and "alive cfg s i" and "i \<notin> cl_ready s" and "cl_inbox s i = []"
  shows "\<exists>t u. cluster_trans cfg wc s (ClPrimary PSIGTERM) t \<and> cluster_trans cfg wc t (ClDeliver i) u \<and>
    cl_workers u i = cl_workers s i \<and> cl_inbox u i = [] \<and> cl_outbox u i = cl_outbox s i \<and> cl_exit u = None"
proof -
  let ?t = "run_primary cfg PSIGTERM s"
  let ?u = "?t\<lparr>cl_inbox := (cl_inbox ?t)(i := [])\<rparr>"
  have "workers_inv cfg (cl_primary s)"
    using cluster_machine.reach_inv [OF assms(2)] assms(1) by (simp add: cluster_inv_def)
  then have "cl_inbox ?t i = [''prepareShutdown'']" using sigterm_told assms(4,6) by simp
  then have "cluster_trans cfg wc ?t (ClDeliver i) ?u"
    using assms(3-5) by (intro cl_ignore [where msg = "''prepareShutdown''"]) (simp_all add: on_message_def)
  moreover have "cluster_trans cfg wc s (ClPrimary PSIGTERM) ?t"
    using assms(3) by (intro cl_primary) (simp_all add: external_primary_def)
  ultimately show ?thesis using assms(3) by (intro exI [of _ ?t] exI [of _ ?u]) simp
qed

theorem shutdown_missed_witness:
  "\<exists>t u. cluster_trans demo_primary demo_workers (cluster_init demo_primary False) (ClPrimary PSIGTERM) t \<and>
     cluster_trans demo_primary demo_workers t (ClDeliver 2) u \<and>
     cl_workers u 2 = worker_init False \<and> cl_inbox u 2 = [] \<and> cl_exit u = None"
proof -
  let ?i = "cluster_init demo_primary False"
  have start: "reach (cluster_start demo_primary False) (cluster_trans demo_primary demo_workers) ?i"
    by (rule reach_start) (simp add: cluster_start_def demo_primary_def)
  have "cl_exit ?i = None" "alive demo_primary ?i 2" "2 \<notin> cl_ready ?i" "cl_inbox ?i 2 = []"
    by (simp_all add: cluster_init_def demo_primary_def)
  from shutdown_missed [OF demo_numbered start this] show ?thesis
    by (auto simp: cluster_init_def)
qed

subsection \<open>The primary outlives the drains\<close>

text \<open>C3. The primary process never exits before every one of its workers has drained.  Whatever clients,
  signals, messages, scrapes, drains, crashes and restarts of workers happen, in whatever
  interleaving: if the primary has exited, it did so with code 0, and for each worker number from
  one to the instance count a worker had reported that its clients are disconnected; and as long
  as it runs, there is exactly one entry for each worker number in its pool.\<close>

theorem exit_after_all_drained:
  assumes "numbered wc" and "reach (cluster_start cfg v) (cluster_trans cfg wc) s"
  shows "(\<forall>c. cl_exit s = Some c \<longrightarrow> c = 0 \<and> cl_drained s = {1..instance_count cfg}) \<and>
    distinct (cluster_workers (cl_primary s)) \<and>
    set (cluster_workers (cl_primary s)) = {1..instance_count cfg}"
  using cluster_machine.reach_inv [OF assms(2)] assms(1)
  by (auto simp: cluster_inv_def workers_inv_def)

theorem exit_after_all_drained_witness:
  "\<exists>u. reach (cluster_start demo_primary False) (cluster_trans demo_primary demo_workers) u \<and>
     cl_exit u = Some 0 \<and> cl_drained u = {1..2}"
proof -
  let ?t = "run_primary demo_primary PSIGTERM demo_cluster"
  have "cluster_stopping demo_primary demo_workers ?t"
    by (rule sigterm_stopping [OF demo_numbered demo_instances demo_cluster_reach demo_cluster_settled demo_sigterm])
  from shutdown.reaches_goal [OF this] obtain u
    where run: "(stopping_step demo_primary demo_workers)\<^sup>*\<^sup>* ?t u" and exit: "cl_exit u = Some 0" by blast
  have r: "reach (cluster_start demo_primary False) (cluster_trans demo_primary demo_workers) u"
    using stopping_reach [OF run reach_step [OF demo_cluster_reach demo_sigterm]] .
  from exit_after_all_drained [OF demo_numbered r] exit have "cl_drained u = {1..2}"
    by (auto simp: demo_primary_def)
  with r exit show ?thesis by (intro exI conjI)
qed

end
