(* ===== verification/Tunnel_Network.thy ===== *)
theory Tunnel_Network
  imports Proxy_Worker
begin

text \<open>
  The parts of \<^verbatim>\<open>src/proxy-worker.ts\<close> together: the middleware, \<open>connect\<close> and the error listener as
  the constructor of \<open>Tunnel\<close> registers them, for one request; and several instances of the proxy
  that forward requests to each other.

  \<^verbatim>\<open>node-tunnel\<close> runs the middleware, then calls \<open>connect\<close> with the host and port of the request's
  target, and emits \<open>error\<close> when that is rejected.  How it takes a target apart is the parameter
  \<open>split\<close>, how it reads a request from the wire the parameter \<open>parse\<close>.
\<close>

subsection \<open>One request\<close>

record proxy_out =
  px_admitted :: bool
  px_out :: connect_out

definition proxy_handle ::
  "(string \<Rightarrow> string \<times> int) \<Rightarrow> proxy_config \<Rightarrow> balena_api \<Rightarrow> tunnel_request \<Rightarrow> tunnel_world \<Rightarrow> proxy_out" where
  "proxy_handle split cfg api req w =
     (let mw = tunnelToDevice cfg api req
      in if \<not> mw_next mw
         then \<lparr> px_admitted = False,
                px_out = (connect_start req)\<lparr>co_ends := mw_ends mw, co_captures := mw_captures mw\<rparr> \<rparr>
         else
           let (host, port) = split (the (mw_url mw));
               out = connect cfg api (req\<lparr>req_url := mw_url mw\<rparr>) port host w;
               caps = (case co_result out of Some (Inl e) \<Rightarrow> tunnel_on_error cfg e | _ \<Rightarrow> [])
           in \<lparr> px_admitted = True,
                px_out = out\<lparr>co_captures := mw_captures mw @ co_captures out @ caps\<rparr> \<rparr>)"

text \<open>What is relied on of \<open>split\<close>.\<close>

definition splits_targets :: "(string \<Rightarrow> string \<times> int) \<Rightarrow> bool" where
  "splits_targets split \<longleftrightarrow>
     (\<forall>host port. CHR '':'' \<notin> set host \<and> 0 \<le> port \<longrightarrow> split (host @ '':'' @ show_int port) = (host, port))"

lemma hex_no_colon: "list_all is_hex uuid \<Longrightarrow> CHR '':'' \<notin> set uuid"
  by (auto simp: list_all_iff is_hex_def is_digit_def)

text \<open>An admitted request reaches \<open>connect\<close> with its own device, port and credentials.\<close>

lemma handle_admitted:
  assumes "splits_targets split" "mw_next (tunnelToDevice cfg api req)"
  obtains uuid port auth req' where "admitted cfg api req uuid port" "parseRequest req = Inr (uuid, port, auth)"
    "parseRequest req' = Inr (uuid, port, auth)" "req_forwarded req' = req_forwarded req"
    "connect_start req' = connect_start req"
    "mw_ends (tunnelToDevice cfg api req) = []"
    "\<exists>caps. px_out (proxy_handle split cfg api req w) =
       (connect cfg api req' port (uuid @ ''.vpn'') w)\<lparr>co_captures := caps\<rparr>"
    "px_admitted (proxy_handle split cfg api req w)"
proof -
  let ?mw = "tunnelToDevice cfg api req"
  let ?req = "req\<lparr>req_url := mw_url ?mw\<rparr>"
  obtain uuid port where a: "admitted cfg api req uuid port"
      and url: "mw_url ?mw = Some (uuid @ ''.vpn:'' @ show_int port)" and ends: "mw_ends ?mw = []"
    using tunnel_try_cases [of cfg api req] assms(2) by (auto simp: tunnelToDevice_def)
  obtain auth where p: "parseRequest req = Inr (uuid, port, auth)" using a by (auto simp: admitted_def)
  note ok = parseRequest_Inr [OF p]
  have "CHR '':'' \<notin> set (uuid @ ''.vpn'')" using hex_no_colon [OF ok(2)] by simp
  then have "split ((uuid @ ''.vpn'') @ '':'' @ show_int port) = (uuid @ ''.vpn'', port)"
    using assms(1) ok(3) by (simp only: splits_targets_def) blast
  then have "\<exists>caps. px_out (proxy_handle split cfg api req w) =
       (connect cfg api ?req port (uuid @ ''.vpn'') w)\<lparr>co_captures := caps\<rparr>"
    and "px_admitted (proxy_handle split cfg api req w)"
    using assms(2) url by (auto simp: proxy_handle_def Let_def)
  moreover have "parseRequest ?req = Inr (uuid, port, auth)"
    using rewritten_target_parses [OF assms(2)] p by simp
  moreover have "connect_start ?req = connect_start req" by (simp add: connect_start_def)
  ultimately show ?thesis using that a p ends by simp
qed

text \<open>Where the socket of an attempt leads: a local socket to the host and port asked for, counted once
  as active and once in total; another instance only after the request was sent there, uncounted.\<close>

definition leads :: "int \<Rightarrow> string \<Rightarrow> connect_out \<Rightarrow> bool" where
  "leads port host out \<longleftrightarrow>
     (case co_result out of
        Some (Inr (LocalSocket h p)) \<Rightarrow>
          h = host \<and> p = port \<and> co_metrics out = [MInc ActiveTunnels (Some 1), MInc TotalTunnels (Some 1)]
      | Some (Inr (RemoteSocket ip)) \<Rightarrow> (\<exists>msg. co_sent out = Some (ip, msg)) \<and> co_metrics out = []
      | _ \<Rightarrow> True)"

lemma localConnect_leads: "leads port host (localConnect port host w out)"
  by (simp add: leads_def localConnect_def split: sum.splits)

lemma end_500_leads: "leads port host (end_500 msg out)"
  by (simp add: leads_def end_500_def)

lemma retry_local_leads: "leads port host (retry_local port host uuid w out)"
  by (simp add: retry_local_def localConnect_leads end_500_leads)

lemma forward_to_leads:
  assumes "co_metrics out = []"
  shows "leads port host (forward_to dsn h uuid q auth w out)"
proof -
  obtain res caps where r: "forwardRequest dsn uuid q (remote_events w) = (res, caps)" by fastforce
  show ?thesis
  proof (cases res)
    case None
    then show ?thesis using r by (simp add: leads_def forward_to_def)
  next
    case (Some x)
    then show ?thesis using r assms by (cases x) (simp_all add: leads_def forward_to_def)
  qed
qed

lemma connect_try_leads:
  assumes "co_metrics out = []"
  shows "leads port host (connect_try cfg api port host uuid auth w out)"
proof -
  obtain answer caps where a:
    "getDeviceVpnHost api (proxy_guest_key cfg) (proxy_sentry_dsn cfg) uuid auth = (answer, caps)"
    by fastforce
  define out' where "out' = out\<lparr>co_captures := co_captures out @ caps\<rparr>"
  have "co_metrics (out'\<lparr>co_forwarded := f\<rparr>) = []" for f using assms by (simp add: out'_def)
  note fwd = forward_to_leads [OF this]
  have err: "leads port host (out'\<lparr>co_result := Some (Inl e)\<rparr>)" for e by (simp add: leads_def)
  show ?thesis
    using localConnect_leads retry_local_leads end_500_leads fwd err
    by (auto simp: connect_try_def a out'_def [symmetric] Let_def
        split: sum.splits vpn_host_answer.splits option.splits)
qed

lemma connect_catch_leads: "leads port host out \<Longrightarrow> leads port host (connect_catch out)"
  by (auto simp: connect_catch_def end_500_leads split: option.splits sum.splits js_error.splits)

lemma connect_leads:
  assumes "parseRequest req = Inr (uuid, p, auth)"
  shows "leads port host (connect cfg api req port host w)"
  unfolding connect_parsed [OF assms]
  by (intro connect_catch_leads connect_try_leads) (simp add: connect_start_def)

lemma connect_sent_to:
  assumes "parseRequest req = Inr (uuid, p, auth)" "co_sent (connect cfg api req port host w) = Some (ip, msg)"
  obtains h where "fst (getDeviceVpnHost api (proxy_guest_key cfg) (proxy_sentry_dsn cfg) uuid auth) =
      Inr (VpnHost h)" and "host_id h \<noteq> proxy_serviceId cfg" and "ip = host_ip_address h"
    and "msg = forward_request_text uuid port auth"
proof -
  have "co_sent (connect_try cfg api port host uuid auth w (connect_start req)) = Some (ip, msg)"
    using assms(2) unfolding connect_parsed [OF assms(1)] by simp
  moreover have "co_sent (connect_start req) = None" by (simp add: connect_start_def)
  ultimately show ?thesis using that by (rule connect_sent)
qed

lemma connect_answered:
  assumes "parseRequest req = Inr (uuid, p, auth)"
  shows "answered (connect cfg api req port host w)"
  unfolding connect_parsed [OF assms]
  by (intro connect_catch_answered connect_try_ends) (simp add: connect_start_def)

text \<open>The ways a request can end.\<close>

definition refused :: "connect_out \<Rightarrow> bool" where
  "refused out \<longleftrightarrow> co_sent out = None \<and> co_metrics out = [] \<and>
     (\<exists>r. co_ends out = [r] \<and>
        r \<in> set (map http_reply [''400 Bad Request'', ''403 Forbidden'', ''407 Proxy Authorization Required'',
          ''500 Internal Server Error'', ''503 Service Unavailable'']))"

definition served ::
  "proxy_config \<Rightarrow> balena_api \<Rightarrow> tunnel_request \<Rightarrow> string \<Rightarrow> int \<Rightarrow> connect_out \<Rightarrow> bool" where
  "served cfg api req uuid port out \<longleftrightarrow>
     (case co_result out of
        None \<Rightarrow> co_ends out = [] \<and> co_sent out \<noteq> None
      | Some (Inl e) \<Rightarrow> co_ends out = [HTTP_500] \<and> tunnel_on_error cfg e = []
      | Some (Inr (LocalSocket h p)) \<Rightarrow>
          co_ends out = [] \<and> h = uuid @ ''.vpn'' \<and> p = port \<and>
          co_metrics out = [MInc ActiveTunnels (Some 1), MInc TotalTunnels (Some 1)]
      | Some (Inr (RemoteSocket ip)) \<Rightarrow>
          co_ends out = [] \<and> co_metrics out = [] \<and> (\<exists>msg. co_sent out = Some (ip, msg)) \<and>
          (\<exists>h. fst (getDeviceVpnHost api (proxy_guest_key cfg) (proxy_sentry_dsn cfg) uuid
                     (req_auth_password req)) = Inr (VpnHost h) \<and>
               host_id h \<noteq> proxy_serviceId cfg \<and> ip = host_ip_address h))"

lemma connect_served:
  assumes "parseRequest req' = Inr (uuid, port, auth)" "auth = req_auth_password req"
  shows "served cfg api req uuid port (connect cfg api req' port (uuid @ ''.vpn'') w)"
proof -
  let ?out = "connect cfg api req' port (uuid @ ''.vpn'') w"
  note ans = connect_answered [OF assms(1), of cfg api port "uuid @ ''.vpn''" w]
  note lead = connect_leads [OF assms(1), of port "uuid @ ''.vpn''" cfg api w]
  show ?thesis
  proof (cases "co_result ?out")
    case None
    then show ?thesis using ans by (simp add: served_def answered_def)
  next
    case (Some r)
    show ?thesis
    proof (cases r)
      case (Inl e)
      then show ?thesis using ans Some by (auto simp: served_def answered_def tunnel_on_error_def)
    next
      case (Inr sock)
      show ?thesis
      proof (cases sock)
        case (LocalSocket h p)
        then show ?thesis using lead ans Some Inr by (simp add: served_def answered_def leads_def)
      next
        case (RemoteSocket ip)
        then obtain msg where sent: "co_sent ?out = Some (ip, msg)" and m: "co_metrics ?out = []"
          using lead Some Inr by (auto simp: leads_def)
        then show ?thesis
          using connect_sent_to [OF assms(1) sent] ans Some Inr RemoteSocket assms(2)
          by (auto simp: served_def answered_def)
      qed
    qed
  qed
qed

lemma served_captures [simp]:
  "served cfg api req uuid port (out\<lparr>co_captures := caps\<rparr>) = served cfg api req uuid port out"
  by (simp add: served_def split: option.splits sum.splits tunnel_socket.splits)

lemma request_outcome:
  assumes "splits_targets split"
  shows "if px_admitted (proxy_handle split cfg api req w)
    then \<exists>uuid port. admitted cfg api req uuid port \<and>
           served cfg api req uuid port (px_out (proxy_handle split cfg api req w))
    else (\<nexists>uuid port. admitted cfg api req uuid port) \<and> refused (px_out (proxy_handle split cfg api req w))"
proof (cases "mw_next (tunnelToDevice cfg api req)")
  case True
  obtain uuid port auth req' where a: "admitted cfg api req uuid port" "parseRequest req = Inr (uuid, port, auth)"
    "parseRequest req' = Inr (uuid, port, auth)"
    "\<exists>caps. px_out (proxy_handle split cfg api req w) =
       (connect cfg api req' port (uuid @ ''.vpn'') w)\<lparr>co_captures := caps\<rparr>"
    "px_admitted (proxy_handle split cfg api req w)"
    using handle_admitted [OF assms True] by metis
  have "served cfg api req uuid port (connect cfg api req' port (uuid @ ''.vpn'') w)"
    using connect_served [OF a(3)] parseRequest_Inr(4) [OF a(2)] by simp
  then have "served cfg api req uuid port (px_out (proxy_handle split cfg api req w))"
    using a(4) served_captures by metis
  then show ?thesis using a(1,5) by auto
next
  case False
  then have "\<not> px_admitted (proxy_handle split cfg api req w)"
    and "px_out (proxy_handle split cfg api req w) =
      (connect_start req)\<lparr>co_ends := mw_ends (tunnelToDevice cfg api req),
        co_captures := mw_captures (tunnelToDevice cfg api req)\<rparr>"
    by (simp_all add: proxy_handle_def Let_def)
  then show ?thesis
    using False tunnel_try_cases [of cfg api req]
    by (auto simp: refused_def connect_start_def tunnelToDevice_def)
qed

text \<open>C5. A tunnel request, from the client's socket to its end.  The request is refused exactly when it
  is not admitted -- a target that does not parse, a caller without access, a device that is not
  connected -- and then exactly one error response was written and nothing else happened.  An
  admitted request either opens a local connection to \<open>uuid.vpn\<close> at the requested port, counted
  once as active and once in total; or is connected to the other instance that the API names; or
  is ended with exactly one 500 response and an error that is not reported twice; or is waiting
  for the other instance.  A client whose tunnel is open has been written nothing.\<close>

theorem tunnel_request_outcome:
  assumes "splits_targets split"
  shows "if px_admitted (proxy_handle split cfg api req w)
    then \<exists>uuid port. admitted cfg api req uuid port \<and>
           served cfg api req uuid port (px_out (proxy_handle split cfg api req w))
    else (\<nexists>uuid port. admitted cfg api req uuid port) \<and> refused (px_out (proxy_handle split cfg api req w))"
  using assms by (rule request_outcome)

text \<open>A way to take a target apart: at its last colon.\<close>

definition demo_split :: "string \<Rightarrow> string \<times> int" where
  "demo_split url =
     (join '':'' (butlast (split_char CHR '':'' url)), the (parseInt (last (split_char CHR '':'' url))))"

lemma demo_split_ok: "splits_targets demo_split"
  unfolding splits_targets_def
proof (intro allI impI)
  fix host :: string and port :: int
  assume "CHR '':'' \<notin> set host \<and> 0 \<le> port"
  moreover from this have "CHR '':'' \<notin> set (show_int port)"
    using show_nat_digits [of "nat port"] by (auto simp: show_int_nonneg is_digit_def)
  ultimately have "split_char CHR '':'' (host @ '':'' @ show_int port) = [host, show_int port]"
    by (simp add: split_char_append split_char_none)
  then show "demo_split (host @ '':'' @ show_int port) = (host, port)"
    by (simp add: demo_split_def del: append.simps append_Cons)
qed

theorem tunnel_request_outcome_witness:
  "px_admitted (proxy_handle demo_split demo_proxy_config demo_api demo_tunnel_request demo_world) \<and>
   (\<exists>uuid port. served demo_proxy_config demo_api demo_tunnel_request uuid port
      (px_out (proxy_handle demo_split demo_proxy_config demo_api demo_tunnel_request demo_world)))"
proof -
  have "px_admitted (proxy_handle demo_split demo_proxy_config demo_api demo_tunnel_request demo_world)"
    using demo_admitted by (simp add: proxy_handle_def Let_def split: prod.splits)
  then show ?thesis
    using tunnel_request_outcome [OF demo_split_ok,
        of demo_proxy_config demo_api demo_tunnel_request demo_world] by auto
qed

subsection \<open>Several instances\<close>

text \<open>Instances are found by address.  A forwarded request is a new request to the instance at the
  other end, read from what was written to the socket; \<open>route\<close> follows a request until an
  instance does not pass it on, and returns the addresses it visited and what the last instance
  did, if there is an instance at that address.\<close>

record proxy_node =
  node_cfg :: proxy_config
  node_api :: balena_api
  node_world :: tunnel_world

definition node_handle :: "(string \<Rightarrow> string \<times> int) \<Rightarrow> proxy_node \<Rightarrow> tunnel_request \<Rightarrow> proxy_out" where
  "node_handle split n req = proxy_handle split (node_cfg n) (node_api n) req (node_world n)"

definition node_vpn_host :: "proxy_node \<Rightarrow> string \<Rightarrow> string option \<Rightarrow> vpn_host_answer result" where
  "node_vpn_host n uuid auth =
     fst (getDeviceVpnHost (node_api n) (proxy_guest_key (node_cfg n)) (proxy_sentry_dsn (node_cfg n)) uuid auth)"

partial_function (option) route ::
  "(string \<Rightarrow> proxy_node option) \<Rightarrow> (string \<Rightarrow> string \<times> int) \<Rightarrow> (string \<Rightarrow> tunnel_request) \<Rightarrow> string list \<Rightarrow>
   string \<Rightarrow> tunnel_request \<Rightarrow> (string list \<times> proxy_out option) option" where
  "route net split parse visited ip req =
     (case net ip of
        None \<Rightarrow> Some (visited @ [ip], None)
      | Some n \<Rightarrow>
          (case co_sent (px_out (node_handle split n req)) of
             None \<Rightarrow> Some (visited @ [ip], Some (node_handle split n req))
           | Some sent \<Rightarrow> route net split parse (visited @ [ip]) (fst sent) (parse (snd sent))))"

text \<open>What is relied on of \<open>parse\<close>, the HTTP parser of the receiving instance.  For a forwarded request
  to be served it has to read the target of it; nothing is assumed about the credentials it finds.\<close>

definition reads_target :: "(string \<Rightarrow> tunnel_request) \<Rightarrow> bool" where
  "reads_target parse \<longleftrightarrow>
     (\<forall>uuid port auth. uuid \<noteq> [] \<and> list_all is_hex uuid \<and> 0 \<le> port \<longrightarrow>
        req_url (parse (forward_request_text uuid port auth)) = Some (uuid @ ''.balena:'' @ show_int port))"

text \<open>An HTTP parser reads any request: the target from the request line, and from the header lines
  the value of the one named \<open>Forwarded\<close>, if there is one.  Names of headers are compared without
  regard to case.\<close>

definition header_line :: "string \<times> string \<Rightarrow> string" where
  "header_line h = fst h @ '': '' @ snd h"

definition http_request :: "string \<Rightarrow> (string \<times> string) list \<Rightarrow> string" where
  "http_request target headers =
     concat (map (\<lambda>l. l @ [CR, LF]) ((''CONNECT '' @ target @ '' HTTP/1.0'') # map header_line headers @ ['''']))"

definition header_named :: "string \<Rightarrow> (string \<times> string) list \<Rightarrow> string option" where
  "header_named n headers = map_of (map (\<lambda>(k, v). (toLowerCase k, v)) headers) n"

definition header_ok :: "string \<times> string \<Rightarrow> bool" where
  "header_ok h \<longleftrightarrow> CHR '':'' \<notin> set (fst h) \<and> CR \<notin> set (header_line h) \<and> LF \<notin> set (header_line h) \<and>
     (toLowerCase (fst h) = ''forwarded'' \<longrightarrow> trim (snd h) = snd h)"

definition request_ok :: "string \<Rightarrow> (string \<times> string) list \<Rightarrow> bool" where
  "request_ok target headers \<longleftrightarrow>
     CHR '' '' \<notin> set target \<and> CR \<notin> set target \<and> LF \<notin> set target \<and>
     list_all header_ok headers \<and> distinct (map (\<lambda>h. toLowerCase (fst h)) headers)"

definition reads_http :: "(string \<Rightarrow> tunnel_request) \<Rightarrow> bool" where
  "reads_http parse \<longleftrightarrow>
     (\<forall>target headers. request_ok target headers \<longrightarrow>
        req_url (parse (http_request target headers)) = Some target \<and>
        req_forwarded (parse (http_request target headers)) = header_named ''forwarded'' headers)"

text \<open>What \<open>forwardRequest\<close> writes is such a request: its only header is that of the credentials.\<close>

definition forward_headers :: "string option \<Rightarrow> (string \<times> string) list" where
  "forward_headers auth =
     (case auth of None \<Rightarrow> [] | Some a \<Rightarrow> [(''Proxy-Authorization'', ''Basic '' @ base64_encode a)])"

lemma forward_request_http:
  "forward_request_text uuid port auth =
     http_request (uuid @ ''.balena:'' @ show_int port) (forward_headers auth)"
  by (simp add: forward_request_text_def http_request_def forward_headers_def header_line_def split: option.splits)

lemma base64_no_line_end: "CR \<notin> set (base64_encode s)" "LF \<notin> set (base64_encode s)"
proof -
  have "base64_digit n \<in> set base64_alphabet" for n
    unfolding base64_digit_def by (rule nth_mem) (simp add: base64_alphabet_def)
  moreover have "CR \<notin> set base64_alphabet" "LF \<notin> set base64_alphabet" by code_simp+
  ultimately have digit: "base64_digit n \<noteq> CR" "base64_digit n \<noteq> LF" for n by metis+
  show "CR \<notin> set (base64_encode s)" "LF \<notin> set (base64_encode s)"
    by (induction s rule: base64_encode.induct) (simp_all add: Let_def digit digit [symmetric])
qed

lemma target_chars:
  assumes "list_all is_hex uuid" "0 \<le> port" "c \<in> set (uuid @ ''.balena:'' @ show_int port)"
  shows "c \<noteq> CR" and "c \<noteq> LF" and "c \<noteq> CHR '' ''"
  using assms show_nat_digits [of "nat port"]
  by (auto simp: show_int_nonneg list_all_iff is_hex_def is_digit_def)

lemma forward_request_ok:
  assumes "list_all is_hex uuid" "0 \<le> port"
  shows "request_ok (uuid @ ''.balena:'' @ show_int port) (forward_headers auth)"
proof -
  have "toLowerCase ''Proxy-Authorization'' = ''proxy-authorization''" by code_simp
  then have "list_all header_ok (forward_headers auth) \<and>
      distinct (map (\<lambda>h. toLowerCase (fst h)) (forward_headers auth))"
    by (simp add: forward_headers_def header_ok_def header_line_def base64_no_line_end split: option.split)
  then show ?thesis using target_chars [OF assms] unfolding request_ok_def by blast
qed

lemma no_forwarded_header: "header_named ''forwarded'' (forward_headers auth) = None"
proof -
  have "toLowerCase ''Proxy-Authorization'' = ''proxy-authorization''" by code_simp
  then show ?thesis by (simp add: header_named_def forward_headers_def split: option.split)
qed

definition arriving :: "(string \<Rightarrow> tunnel_request) \<Rightarrow> string \<Rightarrow> int \<Rightarrow> string option \<Rightarrow> string option" where
  "arriving parse uuid port auth = req_auth_password (parse (forward_request_text uuid port auth))"

lemma forwarded_parses:
  assumes "reads_target parse" "parseRequest req = Inr (uuid, port, auth)"
  shows "parseRequest (parse (forward_request_text uuid port auth)) = Inr (uuid, port, arriving parse uuid port auth)"
proof -
  let ?req = "parse (forward_request_text uuid port auth)"
  note ok = parseRequest_Inr [OF assms(2)]
  have url: "req_url ?req = Some (uuid @ ''.'' @ ''balena'' @ '':'' @ show_int port)"
    using assms(1) ok by (simp add: reads_target_def)
  have "parseRequest (?req\<lparr>req_url := req_url ?req\<rparr>) = Inr (uuid, port, req_auth_password ?req)"
    unfolding url using ok by (intro parseRequest_text) (auto simp: tlds_def)
  then show ?thesis by (simp add: arriving_def)
qed

lemma http_reads_target: "reads_http parse \<Longrightarrow> reads_target parse"
  unfolding reads_http_def reads_target_def forward_request_http using forward_request_ok by blast

lemma forwarded_unmarked:
  assumes "reads_http parse" "parseRequest req = Inr (uuid, port, auth)"
  shows "req_forwarded (parse (forward_request_text uuid port auth)) = None"
proof -
  note ok = parseRequest_Inr [OF assms(2)]
  have "request_ok (uuid @ ''.balena:'' @ show_int port) (forward_headers auth)"
    using ok by (intro forward_request_ok) auto
  with assms(1) show ?thesis
    unfolding reads_http_def forward_request_http by (simp add: no_forwarded_header)
qed

lemma node_sent:
  assumes "splits_targets split" "parseRequest req = Inr (uuid, port, auth)"
    and "co_sent (px_out (node_handle split n req)) = Some sent"
  obtains h where "node_vpn_host n uuid auth = Inr (VpnHost h)" "host_id h \<noteq> proxy_serviceId (node_cfg n)"
    "sent = (host_ip_address h, forward_request_text uuid port auth)"
proof -
  let ?cfg = "node_cfg n" and ?api = "node_api n" and ?w = "node_world n"
  have "mw_next (tunnelToDevice ?cfg ?api req)"
  proof (rule ccontr)
    assume "\<not> mw_next (tunnelToDevice ?cfg ?api req)"
    then have "co_sent (px_out (node_handle split n req)) = None"
      by (simp add: node_handle_def proxy_handle_def Let_def connect_start_def)
    then show False using assms(3) by simp
  qed
  then obtain uuid' port' auth' req' where req': "parseRequest req = Inr (uuid', port', auth')"
      "parseRequest req' = Inr (uuid', port', auth')"
    and out: "\<exists>caps. px_out (proxy_handle split ?cfg ?api req ?w) =
      (connect ?cfg ?api req' port' (uuid' @ ''.vpn'') ?w)\<lparr>co_captures := caps\<rparr>"
    using handle_admitted [OF assms(1), where cfg = ?cfg and api = ?api and req = req and w = ?w] by metis
  have same: "uuid' = uuid" "port' = port" "auth' = auth" using req'(1) assms(2) by auto
  then have "co_sent (connect ?cfg ?api req' port (uuid @ ''.vpn'') ?w) = Some (fst sent, snd sent)"
    using out assms(3) by (auto simp: node_handle_def)
  then show ?thesis
    using connect_sent_to [OF req'(2) [unfolded same]] that unfolding node_vpn_host_def by (metis surjective_pairing)
qed

text \<open>An instance passes a request on when it admits it, does not have the device, and is told another
  instance.\<close>

definition passes_on :: "proxy_node \<Rightarrow> string \<Rightarrow> int \<Rightarrow> string option \<Rightarrow> vpn_host \<Rightarrow> bool" where
  "passes_on n uuid port auth h \<longleftrightarrow>
     (\<exists>did. canAccessDevice (node_api n) (proxy_guest_key (node_cfg n)) uuid port auth = Some did \<and> did \<noteq> 0 \<and>
        fst (isDeviceConnectedToVpn (node_api n) (proxy_guest_key (node_cfg n)) (proxy_sentry_dsn (node_cfg n))
               did (Some (proxy_service_key (node_cfg n)))) = Inr True) \<and>
     \<not> deviceIsLocal (dns_first (node_world n)) uuid \<and>
     node_vpn_host n uuid auth = Inr (VpnHost h) \<and> host_id h \<noteq> proxy_serviceId (node_cfg n)"

lemma connect_try_sends:
  assumes "\<not> deviceIsLocal (dns_first w) uuid" "co_forwarded out = None"
    and "fst (getDeviceVpnHost api (proxy_guest_key cfg) (proxy_sentry_dsn cfg) uuid auth) = Inr (VpnHost h)"
    and "host_id h \<noteq> proxy_serviceId cfg"
  shows "co_sent (connect_try cfg api port host uuid auth w out) =
    Some (host_ip_address h, forward_request_text uuid port auth)"
  using assms by (auto simp: connect_try_def forward_to_def Let_def split: prod.splits)

lemma node_passes_on:
  assumes "splits_targets split" "parseRequest req = Inr (uuid, port, auth)" "req_forwarded req = None"
    and "passes_on n uuid port auth h"
  shows "co_sent (px_out (node_handle split n req)) =
    Some (host_ip_address h, forward_request_text uuid port auth)"
proof -
  let ?cfg = "node_cfg n" and ?api = "node_api n" and ?w = "node_world n"
  have "admitted ?cfg ?api req uuid port"
    using assms(2,4) by (auto simp: admitted_def passes_on_def)
  then have "mw_next (tunnelToDevice ?cfg ?api req)"
    using tunnel_try_cases [of ?cfg ?api req] by (auto simp: tunnelToDevice_def)
  then obtain uuid' port' auth' req' where req': "parseRequest req = Inr (uuid', port', auth')"
      "parseRequest req' = Inr (uuid', port', auth')" "connect_start req' = connect_start req"
    and out: "\<exists>caps. px_out (proxy_handle split ?cfg ?api req ?w) =
      (connect ?cfg ?api req' port' (uuid' @ ''.vpn'') ?w)\<lparr>co_captures := caps\<rparr>"
    using handle_admitted [OF assms(1), where cfg = ?cfg and api = ?api and req = req and w = ?w] by metis
  have same: "uuid' = uuid" "port' = port" "auth' = auth" using req'(1) assms(2) by auto
  have "co_sent (connect ?cfg ?api req' port (uuid @ ''.vpn'') ?w) =
      Some (host_ip_address h, forward_request_text uuid port auth)"
    unfolding connect_parsed [OF req'(2) [unfolded same]] connect_catch_sent req'(3)
    using assms(3,4) by (intro connect_try_sends) (simp_all add: passes_on_def node_vpn_host_def connect_start_def)
  then show ?thesis using out same by (auto simp: node_handle_def)
qed

text \<open>How a request ends at the last instance.\<close>

definition ended_here :: "string \<Rightarrow> int \<Rightarrow> connect_out \<Rightarrow> bool" where
  "ended_here uuid port out \<longleftrightarrow> co_sent out = None \<and>
     (case co_result out of
        None \<Rightarrow> False
      | Some (Inl e) \<Rightarrow> co_ends out = [HTTP_500]
      | Some (Inr sock) \<Rightarrow> co_ends out = [] \<and> sock = LocalSocket (uuid @ ''.vpn'') port)"

lemma node_ends:
  assumes "splits_targets split" "parseRequest req = Inr (uuid, port, auth)"
    and "co_sent (px_out (node_handle split n req)) = None"
  shows "refused (px_out (node_handle split n req)) \<or> ended_here uuid port (px_out (node_handle split n req))"
proof (cases "px_admitted (node_handle split n req)")
  case True
  then obtain uuid' port' where a: "admitted (node_cfg n) (node_api n) req uuid' port'"
      "served (node_cfg n) (node_api n) req uuid' port' (px_out (node_handle split n req))"
    using request_outcome [OF assms(1), of "node_cfg n" "node_api n" req "node_world n"]
    by (auto simp: node_handle_def)
  then have "uuid' = uuid" "port' = port" using assms(2) by (auto simp: admitted_def)
  then have "ended_here uuid port (px_out (node_handle split n req))"
    using a(2) assms(3)
    by (auto simp: served_def ended_here_def split: option.splits sum.splits tunnel_socket.splits)
  then show ?thesis ..
next
  case False
  then show ?thesis
    using request_outcome [OF assms(1), of "node_cfg n" "node_api n" req "node_world n"]
    by (simp add: node_handle_def)
qed

lemma route_stays:
  assumes "splits_targets split" "parseRequest req = Inr (uuid, port, auth)"
    and "\<forall>n. net ip = Some n \<longrightarrow> co_sent (px_out (node_handle split n req)) = None"
  shows "\<exists>out. route net split parse visited ip req = Some (visited @ [ip], out) \<and>
    (case out of None \<Rightarrow> net ip = None | Some px \<Rightarrow> refused (px_out px) \<or> ended_here uuid port (px_out px))"
proof (cases "net ip")
  case None
  then have "route net split parse visited ip req = Some (visited @ [ip], None)"
    by (subst route.simps) simp
  then show ?thesis using None by simp
next
  case (Some n)
  then have "route net split parse visited ip req = Some (visited @ [ip], Some (node_handle split n req))"
    using assms(3) by (subst route.simps) simp
  then show ?thesis using node_ends [OF assms(1,2)] assms(3) Some by simp
qed

text \<open>C11. A request is forwarded at most once when the instances agree.  Suppose that every instance that
  is told where the device is, is told the same instance, and that the instance at that address
  is the one meant.  Then a request for the device ends: at the instance it arrived at, or at the
  one it was forwarded to, which never forwards it again.  The last instance has either refused
  it with one response, or ended it with one 500 response, or opened a local connection to the
  requested device and port.\<close>

theorem forwarding_one_hop:
  assumes "splits_targets split" "reads_target parse" "parseRequest req = Inr (uuid, port, auth)"
    and same: "\<forall>ip n auth h'. net ip = Some n \<and> node_vpn_host n uuid auth = Inr (VpnHost h') \<longrightarrow> h' = h"
    and there: "\<forall>n. net (host_ip_address h) = Some n \<longrightarrow> proxy_serviceId (node_cfg n) = host_id h"
  shows "\<exists>visited out. route net split parse [] ip req = Some (visited, out) \<and>
    (visited = [ip] \<or> visited = [ip, host_ip_address h]) \<and>
    (case out of
       None \<Rightarrow> net (last visited) = None
     | Some px \<Rightarrow> refused (px_out px) \<or> ended_here uuid port (px_out px))"
proof -
  let ?req = "parse (forward_request_text uuid port auth)" and ?ip = "host_ip_address h"
  note stays = route_stays [OF assms(1), where net = net and parse = parse]
  have second: "\<forall>n. net ?ip = Some n \<longrightarrow> co_sent (px_out (node_handle split n ?req)) = None"
  proof (intro allI impI, rule ccontr)
    fix n
    assume n: "net ?ip = Some n" and "co_sent (px_out (node_handle split n ?req)) \<noteq> None"
    then obtain sent where "co_sent (px_out (node_handle split n ?req)) = Some sent" by blast
    from node_sent [OF assms(1) forwarded_parses [OF assms(2,3)] this] n same there
    show False by metis
  qed
  show ?thesis
  proof (cases "\<forall>n. net ip = Some n \<longrightarrow> co_sent (px_out (node_handle split n req)) = None")
    case True
    from stays [where ip = ip and visited = "[]", OF assms(3) True] obtain out where
      "route net split parse [] ip req = Some ([ip], out)"
      "case out of None \<Rightarrow> net ip = None | Some px \<Rightarrow> refused (px_out px) \<or> ended_here uuid port (px_out px)"
      by auto
    then show ?thesis by (intro exI [of _ "[ip]"] exI [of _ out]) (simp split: option.splits)
  next
    case False
    then obtain n sent where n: "net ip = Some n" "co_sent (px_out (node_handle split n req)) = Some sent"
      by auto
    from node_sent [OF assms(1,3) n(2)] n(1) same
    have "sent = (?ip, forward_request_text uuid port auth)" by metis
    then have hop: "route net split parse [] ip req = route net split parse [ip] ?ip ?req"
      using n by (subst route.simps) simp
    from stays [where ip = ?ip and visited = "[ip]", OF forwarded_parses [OF assms(2,3)] second]
    obtain out where "route net split parse [ip] ?ip ?req = Some ([ip, ?ip], out)"
      "case out of None \<Rightarrow> net ?ip = None | Some px \<Rightarrow> refused (px_out px) \<or> ended_here uuid port (px_out px)"
      by auto
    with hop show ?thesis by (intro exI [of _ "[ip, ?ip]"] exI [of _ out]) (simp split: option.splits)
  qed
qed

text \<open>A reader of requests: the second word of the first line is the target, and the lines up to the
  empty line are headers, the name and the value separated by a colon and a space.\<close>

definition read_header :: "string \<Rightarrow> string \<times> string" where
  "read_header l =
     (let parts = split_char CHR '':'' l in (toLowerCase (hd parts), drop 1 (join '':'' (tl parts))))"

definition demo_parse :: "string \<Rightarrow> tunnel_request" where
  "demo_parse msg =
     (let lines = split_lines msg
      in \<lparr> req_url = (case split_char CHR '' '' (hd lines) of _ # u # _ \<Rightarrow> Some u | _ \<Rightarrow> None),
           req_auth_password = None,
           req_forwarded = map_of (map read_header (takeWhile (\<lambda>l. l \<noteq> '''') (tl lines))) ''forwarded'' \<rparr>)"

lemma read_header_line:
  assumes "CHR '':'' \<notin> set (fst h)"
  shows "read_header (header_line h) = (toLowerCase (fst h), snd h)"
  using assms by (simp add: read_header_def header_line_def split_char_append join_split_char del: split_char.simps)

lemma demo_parse_ok: "reads_http demo_parse"
  unfolding reads_http_def
proof (intro allI impI)
  fix target and headers :: "(string \<times> string) list"
  assume ok: "request_ok target headers"
  let ?ls = "(''CONNECT '' @ target @ '' HTTP/1.0'') # map header_line headers @ ['''']"
  have "\<forall>l \<in> set ?ls. LF \<notin> set l" using ok by (auto simp: request_ok_def header_ok_def list_all_iff)
  then have lines: "split_lines (http_request target headers) = ?ls @ [[]]"
    unfolding http_request_def by (rule split_lines_text)
  have "split_char CHR '' '' (''CONNECT'' @ CHR '' '' # target @ CHR '' '' # ''HTTP/1.0'') = [''CONNECT'', target, ''HTTP/1.0'']"
    using ok by (subst split_char_append) (simp_all add: request_ok_def split_char_append)
  then have "req_url (demo_parse (http_request target headers)) = Some target"
    by (simp add: demo_parse_def lines)
  moreover have "takeWhile (\<lambda>l. l \<noteq> '''') (map header_line headers @ ['''', '''']) = map header_line headers"
    by (subst takeWhile_append2) (auto simp: header_line_def)
  moreover have "map (\<lambda>h. read_header (header_line h)) headers = map (\<lambda>(k, v). (toLowerCase k, v)) headers"
    using ok by (auto simp: request_ok_def header_ok_def list_all_iff read_header_line)
  ultimately show "req_url (demo_parse (http_request target headers)) = Some target \<and>
      req_forwarded (demo_parse (http_request target headers)) = header_named ''forwarded'' headers"
    by (simp add: demo_parse_def lines header_named_def comp_def del: map_eq_conv)
qed

text \<open>Two instances, 7 and 9, of which the second has the device; and a public device.\<close>

definition open_api :: "vpn_host \<Rightarrow> balena_api" where
  "open_api h =
     \<lparr> api_canAccess = (\<lambda>url actions auth. Inr (Some [42])), api_connectedDevice = (\<lambda>did auth. Inr (Some did)),
       api_serviceInstances = (\<lambda>uuid auth. Inr [h]) \<rparr>"

definition demo_node :: "int \<Rightarrow> vpn_host \<Rightarrow> bool \<Rightarrow> proxy_node" where
  "demo_node i h here =
     \<lparr> node_cfg = demo_proxy_config\<lparr>proxy_serviceId := i\<rparr>, node_api = open_api h,
       node_world = \<lparr> dns_first = (\<lambda>_. here), dns_retry = (\<lambda>_. here), local_socket = Inr (), remote_events = [] \<rparr> \<rparr>"

definition demo_host :: vpn_host where
  "demo_host = \<lparr> host_id = 9, host_ip_address = ''10.1.0.9'' \<rparr>"

definition demo_net :: "string \<Rightarrow> proxy_node option" where
  "demo_net ip =
     (if ip = ''10.1.0.7'' then Some (demo_node 7 demo_host False)
      else if ip = ''10.1.0.9'' then Some (demo_node 9 demo_host True) else None)"

lemma demo_node_host: "node_vpn_host (demo_node i h here) uuid auth = Inr (VpnHost h)"
  by (simp add: node_vpn_host_def demo_node_def open_api_def getDeviceVpnHost_def)

theorem forwarding_one_hop_witness:
  "\<exists>visited out. route demo_net demo_split demo_parse [] ''10.1.0.7'' demo_guest_request = Some (visited, out) \<and>
     visited \<in> {[''10.1.0.7''], [''10.1.0.7'', ''10.1.0.9'']}"
proof -
  have p: "parseRequest demo_guest_request = Inr (''c0ffee'', 80, None)" by code_simp
  have "\<forall>ip n auth h'. demo_net ip = Some n \<and> node_vpn_host n ''c0ffee'' auth = Inr (VpnHost h') \<longrightarrow> h' = demo_host"
    by (auto simp: demo_net_def demo_node_host split: if_splits)
  moreover have "\<forall>n. demo_net (host_ip_address demo_host) = Some n \<longrightarrow>
      proxy_serviceId (node_cfg n) = host_id demo_host"
    by (auto simp: demo_net_def demo_host_def demo_node_def)
  ultimately show ?thesis
    using forwarding_one_hop [OF demo_split_ok http_reads_target [OF demo_parse_ok] p, where net = demo_net and h = demo_host and ip = "''10.1.0.7''"]
    by (auto simp: demo_host_def)
qed

text \<open>C16. Forwarding loops go unnoticed.  \<open>connect\<close> records each forwarding in the \<open>Forwarded\<close> header and
  refuses a request whose header names this instance already, but the header is not part of what
  is sent: a reader of HTTP requests, which finds the header when it is there, finds none.  So if every instance of a set passes a request on to an instance of the set -- an
  instance may be its own successor, when the API still lists the address under the service id of
  an earlier registration -- then the request is never answered, whoever of them receives it.\<close>

theorem forwarding_loop_undetected:
  assumes "splits_targets split" "reads_http parse" "parseRequest req = Inr (uuid, port, auth)"
    and "req_forwarded req = None" "(ip, auth) \<in> loop"
    and closed: "\<forall>(i, a) \<in> loop. \<exists>n h. net i = Some n \<and> passes_on n uuid port a h \<and>
      (host_ip_address h, arriving parse uuid port a) \<in> loop"
  shows "route net split parse [] ip req = None"
proof (rule ccontr)
  assume "route net split parse [] ip req \<noteq> None"
  then obtain r where r: "route net split parse [] ip req = Some r" by blast
  let ?P = "\<lambda>net' split' parse' (visited :: string list) i rq (r :: string list \<times> proxy_out option).
    net' = net \<and> split' = split \<and> parse' = parse \<longrightarrow>
    \<not> (\<exists>a. parseRequest rq = Inr (uuid, port, a) \<and> req_forwarded rq = None \<and> (i, a) \<in> loop)"
  have "?P net split parse [] ip req r"
  proof (rule route.raw_induct [where P = ?P, OF _ r], intro impI notI, elim exE conjE)
    fix rt net' split' parse' visited i rq r' a
    assume IH: "\<And>net split parse visited i rq r. rt net split parse visited i rq = Some r \<Longrightarrow>
        ?P net split parse visited i rq r"
      and body: "(case net' i of None \<Rightarrow> Some (visited @ [i], None)
        | Some n \<Rightarrow> (case co_sent (px_out (node_handle split' n rq)) of
              None \<Rightarrow> Some (visited @ [i], Some (node_handle split' n rq))
            | Some sent \<Rightarrow> rt net' split' parse' (visited @ [i]) (fst sent) (parse' (snd sent)))) = Some r'"
      and eqs: "net' = net" "split' = split" "parse' = parse"
      and rq: "parseRequest rq = Inr (uuid, port, a)" "req_forwarded rq = None" "(i, a) \<in> loop"
    from closed rq(3) obtain n h where n: "net i = Some n" "passes_on n uuid port a h"
      "(host_ip_address h, arriving parse uuid port a) \<in> loop" by blast
    have "rt net split parse (visited @ [i]) (host_ip_address h) (parse (forward_request_text uuid port a)) = Some r'"
      using body n(1) node_passes_on [OF assms(1) rq(1,2) n(2)] by (simp add: eqs)
    from IH [OF this] show False
      using forwarded_parses [OF http_reads_target [OF assms(2)] rq(1)] forwarded_unmarked [OF assms(2) rq(1)] n(3)
      by blast
  qed
  then show False using assms(3-5) by blast
qed

text \<open>One instance that registered again, as number 7, while the API still lists its address as number 9.\<close>

theorem forwarding_loop_undetected_witness:
  "route [''10.1.0.9'' \<mapsto> demo_node 7 demo_host False] demo_split demo_parse [] ''10.1.0.9'' demo_guest_request = None"
proof (rule forwarding_loop_undetected [OF demo_split_ok demo_parse_ok])
  show "parseRequest demo_guest_request = Inr (''c0ffee'', 80, None)" by code_simp
  show "req_forwarded demo_guest_request = None" by (simp add: demo_guest_request_def)
  show "(''10.1.0.9'', None) \<in> {(''10.1.0.9'', None :: string option)}" by simp
  have "passes_on (demo_node 7 demo_host False) ''c0ffee'' 80 None demo_host"
    by (simp add: passes_on_def demo_node_host)
      (simp add: demo_node_def open_api_def canAccessDevice_def isDeviceConnectedToVpn_def deviceIsLocal_def
        demo_host_def)
  then show "\<forall>(i, a) \<in> {(''10.1.0.9'', None :: string option)}. \<exists>n h.
      [''10.1.0.9'' \<mapsto> demo_node 7 demo_host False] i = Some n \<and> passes_on n ''c0ffee'' 80 a h \<and>
      (host_ip_address h, arriving demo_parse ''c0ffee'' 80 a) \<in> {(''10.1.0.9'', None)}"
    by (auto simp: arriving_def demo_parse_def Let_def demo_host_def intro!: exI [of _ demo_host])
qed

end
