(* ===== verification/Auth_Script.thy ===== *)
theory Auth_Script
  imports Api
begin

text \<open>
  \<^verbatim>\<open>auth/src/main.rs\<close>: the program that OpenVPN runs to check the credentials of a connecting device,
  together with the endpoint of the internal API that it asks (\<open>post_auth\<close>).

  The environment and the arguments of the process, the HTTP client \<open>ureq\<close>, the file system and the
  JSON reader in front of the endpoint are parameters.  With \<open>username-as-common-name\<close> in OpenVPN's
  configuration, the user name is the identity that an accepted client has from then on.
\<close>

subsection \<open>The program\<close>

datatype auth_exit = AuthPanic | AuthWrote string string

definition auth_url :: "string \<Rightarrow> string" where
  "auth_url vpn_api_port = ''http://127.0.0.1:'' @ vpn_api_port @ ''/api/v1/auth/''"

definition auth_headers :: "(string \<times> string) list" where
  "auth_headers = [(''Content-type'', ''application/json'')]"

definition quoted :: "string \<Rightarrow> string" where
  "quoted s = [CHR 0x22] @ s @ [CHR 0x22]"

definition auth_body :: "string \<Rightarrow> string \<Rightarrow> string" where
  "auth_body user pass =
     ''{'' @ quoted ''username'' @ '':'' @ quoted user @ '','' @ quoted ''password'' @ '':'' @ quoted pass @ ''}''"

text \<open>\<open>main\<close>: \<open>env\<close> are the environment variables that are set and are Unicode, \<open>args\<close> the arguments with the
  program's name first, \<open>writes\<close> the files that can be written, and \<open>ureq\<close> whether a request ends
  with \<open>Ok\<close>.\<close>

definition auth_main ::
  "(string \<Rightarrow> (string \<times> string) list \<Rightarrow> string \<Rightarrow> bool) \<Rightarrow> (string \<Rightarrow> bool) \<Rightarrow> (string \<Rightarrow> string option) \<Rightarrow>
   string list \<Rightarrow> auth_exit" where
  "auth_main ureq writes env args =
     (case env ''username'' of None \<Rightarrow> AuthPanic | Some user \<Rightarrow>
      (case env ''password'' of None \<Rightarrow> AuthPanic | Some pass \<Rightarrow>
      (case env ''auth_control_file'' of None \<Rightarrow> AuthPanic | Some auth_control_file \<Rightarrow>
       if length args \<le> 1 then AuthPanic
       else if \<not> writes auth_control_file then AuthPanic
       else AuthWrote auth_control_file
              (if ureq (auth_url (args ! 1)) auth_headers (auth_body user pass) then ''1'' else ''0''))))"

subsection \<open>What it talks to\<close>

text \<open>The endpoint behind the JSON reader: the status of its reply to a body sent from the local host.
  \<open>read\<close> gives the string members of a body, and nothing for a body that is no JSON, which the reader
  refuses.\<close>

definition reply_status :: "api_out list \<Rightarrow> int" where
  "reply_status outs = (case filter is_reply outs of [Reply code body] \<Rightarrow> code | _ \<Rightarrow> 500)"

definition local_auth :: "(string \<rightharpoonup> string) \<Rightarrow> api_request" where
  "local_auth members =
     \<lparr> req_ip = Some ''127.0.0.1'', worker_param = '''',
       req_body = \<lparr> common_name = members ''common_name'', time_duration = None,
         username = members ''username'', password = members ''password'' \<rparr> \<rparr>"

definition auth_endpoint ::
  "(string \<Rightarrow> (string \<rightharpoonup> string) option) \<Rightarrow> auth_config \<Rightarrow> (string \<Rightarrow> string \<Rightarrow> auth_error + int) \<Rightarrow> string \<Rightarrow> int" where
  "auth_endpoint read cfg memo body =
     (case read body of None \<Rightarrow> 400 | Some members \<Rightarrow> reply_status (post_auth cfg memo (local_auth members)))"

text \<open>What is relied on of the HTTP client: a response below 400 is \<open>Ok\<close>, any other is not.\<close>

definition ureq_asks :: "(string \<Rightarrow> (string \<times> string) list \<Rightarrow> string \<Rightarrow> bool) \<Rightarrow> string \<Rightarrow> (string \<Rightarrow> int) \<Rightarrow> bool" where
  "ureq_asks ureq url server \<longleftrightarrow> (\<forall>body. ureq url auth_headers body \<longleftrightarrow> server body < 400)"

text \<open>What is relied on of the JSON reader: an object whose keys and values are strings of characters that
  stand for themselves is read as these members, the last one where a key is repeated.\<close>

definition json_plain :: "string \<Rightarrow> bool" where
  "json_plain s \<longleftrightarrow>
     list_all (\<lambda>c. 32 \<le> (of_char c :: nat) \<and> (of_char c :: nat) < 127 \<and> c \<noteq> CHR 0x22 \<and> c \<noteq> CHR 0x5C) s"

definition json_object :: "(string \<times> string) list \<Rightarrow> string" where
  "json_object ms = ''{'' @ join '','' (map (\<lambda>(k, v). quoted k @ '':'' @ quoted v) ms) @ ''}''"

definition reads_json :: "(string \<Rightarrow> (string \<rightharpoonup> string) option) \<Rightarrow> bool" where
  "reads_json read \<longleftrightarrow>
     (\<forall>ms. list_all (\<lambda>(k, v). json_plain k \<and> json_plain v) ms \<longrightarrow> read (json_object ms) = Some (map_of (rev ms)))"

subsection \<open>Properties\<close>

lemma endpoint_status:
  assumes "username (req_body req) = Some u" "password (req_body req) = Some p" "fromLocalHost req"
  shows "reply_status (post_auth cfg memo req) < 400 \<longleftrightarrow> checkDeviceAuth (memo u p) = Inr 200"
  using assms
  by (auto simp: post_auth_def reply_status_def is_reply_def split: sum.splits)

lemma endpoint_object:
  assumes "reads_json read" "list_all (\<lambda>(k, v). json_plain k \<and> json_plain v) ms"
    and "map_of (rev ms) ''username'' = Some u" "map_of (rev ms) ''password'' = Some p"
  shows "auth_endpoint read cfg memo (json_object ms) < 400 \<longleftrightarrow> checkDeviceAuth (memo u p) = Inr 200"
proof -
  have "read (json_object ms) = Some (map_of (rev ms))" using assms(1,2) by (simp add: reads_json_def)
  moreover have "reply_status (post_auth cfg memo (local_auth (map_of (rev ms)))) < 400 \<longleftrightarrow>
      checkDeviceAuth (memo u p) = Inr 200"
    using assms(3,4) by (intro endpoint_status) (simp_all add: local_auth_def fromLocalHost_def)
  ultimately show ?thesis by (simp add: auth_endpoint_def)
qed

lemma plain_names: "json_plain ''username''" "json_plain ''password''"
  by (simp_all add: json_plain_def)

lemma auth_body_object: "auth_body u p = json_object [(''username'', u), (''password'', p)]"
  by (simp add: auth_body_def json_object_def)

lemma auth_main_verdict:
  assumes "env ''username'' = Some u" "env ''password'' = Some p" "env ''auth_control_file'' = Some ctl"
    and "writes ctl" "ureq_asks ureq (auth_url port) server"
  shows "auth_main ureq writes env [prog, port] =
    AuthWrote ctl (if server (auth_body u p) < 400 then ''1'' else ''0'')"
  using assms by (simp add: auth_main_def ureq_asks_def)

text \<open>C14. The verdict on a device is the API's.  If the user name and the password consist of printable
  characters other than quotes and backslashes, the control file is written once: with 1 if the
  API's status for exactly these credentials is 200, and with 0 otherwise.\<close>

theorem plain_credentials_decide:
  assumes "reads_json read" "ureq_asks ureq (auth_url port) (auth_endpoint read cfg memo)"
    and "env ''username'' = Some u" "env ''password'' = Some p" "env ''auth_control_file'' = Some ctl"
    and "writes ctl" "json_plain u" "json_plain p"
  shows "auth_main ureq writes env [prog, port] =
    AuthWrote ctl (if checkDeviceAuth (memo u p) = Inr 200 then ''1'' else ''0'')"
proof -
  have "auth_endpoint read cfg memo (auth_body u p) < 400 \<longleftrightarrow> checkDeviceAuth (memo u p) = Inr 200"
    unfolding auth_body_object
    using assms(7,8) plain_names by (intro endpoint_object [OF assms(1)]) simp_all
  then show ?thesis using auth_main_verdict [where env = env and writes = writes, OF assms(3-6,2)] by simp
qed

definition smuggle :: "string \<Rightarrow> string \<Rightarrow> string" where
  "smuggle key other = key @ [CHR 0x22] @ '','' @ quoted ''username'' @ '':'' @ [CHR 0x22] @ other"

lemma smuggle_object:
  "auth_body u (smuggle key other) =
     json_object [(''username'', u), (''password'', key), (''username'', other)]"
  by (simp add: auth_body_def json_object_def smuggle_def quoted_def)

text \<open>C15. A device can pose as any other.  The program puts user name and password between quotes without
  escaping them, so a password may go on as \<open>key","username":"other\<close>.  The control file then gets the
  API's verdict on the device \<open>other\<close> and its key, whatever user name \<open>u\<close> OpenVPN was given: a device
  that knows its own key is let in under the name of any other device.\<close>

theorem password_smuggles_identity:
  assumes "reads_json read" "ureq_asks ureq (auth_url port) (auth_endpoint read cfg memo)"
    and "env ''username'' = Some u" "env ''password'' = Some (smuggle key other)"
    and "env ''auth_control_file'' = Some ctl" "writes ctl"
    and "json_plain u" "json_plain key" "json_plain other"
  shows "auth_main ureq writes env [prog, port] =
    AuthWrote ctl (if checkDeviceAuth (memo other key) = Inr 200 then ''1'' else ''0'')"
proof -
  have "auth_endpoint read cfg memo (auth_body u (smuggle key other)) < 400 \<longleftrightarrow>
      checkDeviceAuth (memo other key) = Inr 200"
    unfolding smuggle_object
    using assms(7-9) plain_names by (intro endpoint_object [OF assms(1)]) simp_all
  then show ?thesis using auth_main_verdict [where env = env and writes = writes, OF assms(3-6,2)] by simp
qed

subsection \<open>A reader of JSON objects\<close>

text \<open>Cut at the quotes, an object of plain strings alternates between punctuation and members.\<close>

fun object_members :: "string list \<Rightarrow> (string \<times> string) list" where
  "object_members (k # c # v # d # ps) = (k, v) # object_members ps"
| "object_members ps = []"

definition demo_read :: "string \<Rightarrow> (string \<rightharpoonup> string) option" where
  "demo_read body = Some (map_of (rev (object_members (tl (split_char CHR 0x22 body)))))"

fun object_pieces :: "(string \<times> string) list \<Rightarrow> string list" where
  "object_pieces [] = []"
| "object_pieces [(k, v)] = [k, '':'', v, ''}'']"
| "object_pieces ((k, v) # m # ms) = [k, '':'', v, '',''] @ object_pieces (m # ms)"

lemma object_members_pieces: "object_members (object_pieces ms) = ms"
  by (induction ms rule: object_pieces.induct) simp_all

lemma plain_no_quote: "json_plain s \<Longrightarrow> CHR 0x22 \<notin> set s"
  by (auto simp: json_plain_def list_all_iff)

lemma split_object:
  assumes "ms \<noteq> []" "list_all (\<lambda>(k, v). json_plain k \<and> json_plain v) ms" "CHR 0x22 \<notin> set pre"
  shows "split_char CHR 0x22 (pre @ join '','' (map (\<lambda>(k, v). quoted k @ '':'' @ quoted v) ms) @ ''}'') =
    pre # object_pieces ms"
  using assms
proof (induction ms arbitrary: pre rule: object_pieces.induct)
  case (2 k v)
  then show ?case
    using split_char_append [of "CHR 0x22" k] split_char_append [of "CHR 0x22" v]
      split_char_append [of "CHR 0x22" "'':''"]
    by (simp add: quoted_def split_char_append plain_no_quote)
next
  case (3 k v m ms)
  have "split_char CHR 0x22 ('','' @ join '','' (map (\<lambda>(k, v). quoted k @ '':'' @ quoted v) (m # ms)) @ ''}'') =
      '','' # object_pieces (m # ms)"
    using 3(3) by (intro 3(1)) simp_all
  then show ?case
    using 3(3,4) split_char_append [of "CHR 0x22" "'':''"]
    by (simp add: quoted_def split_char_append plain_no_quote)
qed simp

lemma demo_read_ok: "reads_json demo_read"
  unfolding reads_json_def
proof (intro allI impI)
  fix ms :: "(string \<times> string) list"
  assume ms: "list_all (\<lambda>(k, v). json_plain k \<and> json_plain v) ms"
  have "object_members (tl (split_char CHR 0x22 (json_object ms))) = ms"
  proof (cases "ms = []")
    case True
    then show ?thesis by (simp add: json_object_def)
  next
    case False
    then show ?thesis
      using split_object [OF False ms, of "''{''"] by (simp add: json_object_def object_members_pieces)
  qed
  then show "demo_read (json_object ms) = Some (map_of (rev ms))" by (simp add: demo_read_def)
qed

text \<open>A client that asks the endpoint directly.\<close>

definition demo_ureq :: "(string \<Rightarrow> int) \<Rightarrow> string \<Rightarrow> (string \<times> string) list \<Rightarrow> string \<Rightarrow> bool" where
  "demo_ureq server url headers body \<longleftrightarrow> server body < 400"

definition demo_memo :: "string \<Rightarrow> string \<Rightarrow> auth_error + int" where
  "demo_memo u p = (if u = ''aaaa'' \<and> p = ''key'' then Inr 200 else Inr 401)"

definition demo_auth_env :: "string \<Rightarrow> string \<Rightarrow> string \<rightharpoonup> string" where
  "demo_auth_env u p = [''username'' \<mapsto> u, ''password'' \<mapsto> p, ''auth_control_file'' \<mapsto> ''/tmp/f'']"

lemma demo_ureq_asks: "ureq_asks (demo_ureq server) url server"
  by (simp add: ureq_asks_def demo_ureq_def)

theorem plain_credentials_decide_witness:
  "auth_main (demo_ureq (auth_endpoint demo_read demo_auth_config demo_memo)) (\<lambda>_. True)
     (demo_auth_env ''bbbb'' ''key'') [''auth'', ''8080''] = AuthWrote ''/tmp/f'' ''0''"
  using plain_credentials_decide [OF demo_read_ok demo_ureq_asks, where u = "''bbbb''" and p = "''key''"
      and env = "demo_auth_env ''bbbb'' ''key''" and ctl = "''/tmp/f''" and writes = "\<lambda>_. True"
      and cfg = demo_auth_config and memo = demo_memo and prog = "''auth''" and port = "''8080''"]
  by (simp add: demo_auth_env_def json_plain_def demo_memo_def checkDeviceAuth_def)

theorem password_smuggles_identity_witness:
  "auth_main (demo_ureq (auth_endpoint demo_read demo_auth_config demo_memo)) (\<lambda>_. True)
     (demo_auth_env ''bbbb'' (smuggle ''key'' ''aaaa'')) [''auth'', ''8080''] = AuthWrote ''/tmp/f'' ''1''"
  using password_smuggles_identity [OF demo_read_ok demo_ureq_asks, where u = "''bbbb''" and key = "''key''"
      and other = "''aaaa''" and env = "demo_auth_env ''bbbb'' (smuggle ''key'' ''aaaa'')"
      and ctl = "''/tmp/f''" and writes = "\<lambda>_. True"
      and cfg = demo_auth_config and memo = demo_memo and prog = "''auth''" and port = "''8080''"]
  by (simp add: demo_auth_env_def json_plain_def demo_memo_def checkDeviceAuth_def)

end
