(* ===== verification/Client_Script.thy ===== *)
theory Client_Script
  imports Auth_Script "HOL-Library.Multiset"
begin

text \<open>
  \<^verbatim>\<open>openvpn/scripts/client-connect-disconnect.sh\<close>: the script that OpenVPN runs when a client has connected
  and when it has disconnected, and the requests to the internal API that come of it.

  The script starts its request in the background and ends, so requests arrive in any order.  The
  reader of request bodies at the other end is a parameter, as for the authentication program.
\<close>

subsection \<open>The script\<close>

text \<open>The variables that OpenVPN sets; one that is not set is empty.\<close>

record hook_env =
  var_common_name :: string
  var_bytes_received :: string
  var_bytes_sent :: string
  var_time_duration :: string

datatype http_method = POST | DELETE

record script_request =
  sr_method :: http_method
  sr_url :: string
  sr_data :: string

text \<open>The lines between the braces, as the here-document has them.\<close>

definition here_document :: "(string \<times> string) list \<Rightarrow> string" where
  "here_document ms =
     ''{'' @ [LF] @ join ('','' @ [LF]) (map (\<lambda>(k, v). quoted k @ '': '' @ v) ms) @ [LF] @ ''}'' @ [LF]"

definition client_script :: "string \<Rightarrow> string \<Rightarrow> hook_env \<Rightarrow> script_request" where
  "client_script instance_id api_port env =
     (let url = ''http://127.0.0.1:'' @ api_port @ ''/api/v2/'' @ instance_id @ ''/clients''
      in if var_bytes_received env = ''''
         then \<lparr> sr_method = POST, sr_url = url,
                sr_data = here_document [(''common_name'', quoted (var_common_name env))] \<rparr>
         else \<lparr> sr_method = DELETE, sr_url = url,
                sr_data = here_document
                  [(''common_name'', quoted (var_common_name env)), (''bytes_received'', var_bytes_received env),
                   (''bytes_sent'', var_bytes_sent env), (''time_duration'', var_time_duration env)] \<rparr>)"

subsection \<open>What arrives\<close>

text \<open>What is relied on of the reader: members whose values are plain strings or integers are read as
  such, the last one where a key is repeated.\<close>

datatype script_value = SStr string | SNum int

fun value_text :: "script_value \<Rightarrow> string" where
  "value_text (SStr s) = quoted s"
| "value_text (SNum i) = show_int i"

fun value_json :: "script_value \<Rightarrow> json" where
  "value_json (SStr s) = JStr s"
| "value_json (SNum i) = JNum (of_int i)"

fun value_plain :: "script_value \<Rightarrow> bool" where
  "value_plain (SStr s) = json_plain s"
| "value_plain (SNum i) = True"

definition reads_document :: "(string \<Rightarrow> (string \<rightharpoonup> json) option) \<Rightarrow> bool" where
  "reads_document read \<longleftrightarrow>
     (\<forall>ms. list_all (\<lambda>(k, v). json_plain k \<and> value_plain v) ms \<longrightarrow>
        read (here_document (map (\<lambda>(k, v). (k, value_text v)) ms)) =
          Some (map_of (rev (map (\<lambda>(k, v). (k, value_json v)) ms))))"

text \<open>The call of the endpoint that a request becomes, if its body can be read; the instance is the
  parameter of the route.\<close>

definition script_call ::
  "(string \<Rightarrow> (string \<rightharpoonup> json) option) \<Rightarrow> string \<Rightarrow> script_request \<Rightarrow> api_call option" where
  "script_call read instance_id r =
     map_option (\<lambda>members.
       let req = \<lparr> req_ip = Some ''127.0.0.1'', worker_param = instance_id,
                   req_body = \<lparr> common_name = (case members ''common_name'' of Some (JStr s) \<Rightarrow> Some s | _ \<Rightarrow> None),
                     time_duration = members ''time_duration'', username = None, password = None \<rparr> \<rparr>
       in case sr_method r of POST \<Rightarrow> PostClients req | DELETE \<Rightarrow> DeleteClients req) (read (sr_data r))"

subsection \<open>Sessions\<close>

text \<open>A session of a device on an instance, with its traffic and duration once it is over.\<close>

record vpn_session =
  ses_uuid :: string
  ses_instance :: string
  ses_end :: "(int \<times> int \<times> int) option"

definition connect_env :: "vpn_session \<Rightarrow> hook_env" where
  "connect_env ses =
     \<lparr> var_common_name = ses_uuid ses, var_bytes_received = '''', var_bytes_sent = '''', var_time_duration = '''' \<rparr>"

definition disconnect_env :: "vpn_session \<Rightarrow> int \<times> int \<times> int \<Rightarrow> hook_env" where
  "disconnect_env ses stats =
     (case stats of (rx, tx, d) \<Rightarrow>
        \<lparr> var_common_name = ses_uuid ses, var_bytes_received = show_int rx, var_bytes_sent = show_int tx,
          var_time_duration = show_int d \<rparr>)"

definition session_requests :: "string \<Rightarrow> vpn_session \<Rightarrow> script_request list" where
  "session_requests port ses =
     client_script (ses_instance ses) port (connect_env ses) #
     (case ses_end ses of None \<Rightarrow> [] | Some stats \<Rightarrow> [client_script (ses_instance ses) port (disconnect_env ses stats)])"

definition session_calls ::
  "(string \<Rightarrow> (string \<rightharpoonup> json) option) \<Rightarrow> string \<Rightarrow> vpn_session \<Rightarrow> api_call list" where
  "session_calls read port ses = List.map_filter (script_call read (ses_instance ses)) (session_requests port ses)"

definition open_sessions :: "vpn_session list \<Rightarrow> string \<Rightarrow> nat" where
  "open_sessions ss u = length (filter (\<lambda>ses. ses_uuid ses = u \<and> ses_end ses = None) ss)"

subsection \<open>Properties\<close>

definition hook_request :: "string \<Rightarrow> string \<Rightarrow> json option \<Rightarrow> api_request" where
  "hook_request instance_id uuid duration =
     \<lparr> req_ip = Some ''127.0.0.1'', worker_param = instance_id,
       req_body = \<lparr> common_name = Some uuid, time_duration = duration, username = None, password = None \<rparr> \<rparr>"

lemma show_int_nonempty [simp]: "show_int i \<noteq> ''''"
  by (simp add: show_int_def)

lemma plain_keys:
  "json_plain ''common_name''" "json_plain ''bytes_received''" "json_plain ''bytes_sent''"
  "json_plain ''time_duration''"
  by (simp_all add: json_plain_def)

lemma connect_call:
  assumes "reads_document read" "json_plain (ses_uuid ses)"
  shows "script_call read (ses_instance ses) (client_script (ses_instance ses) port (connect_env ses)) =
    Some (PostClients (hook_request (ses_instance ses) (ses_uuid ses) None))"
proof -
  let ?ms = "[(''common_name'', SStr (ses_uuid ses))]"
  have "read (here_document (map (\<lambda>(k, v). (k, value_text v)) ?ms)) =
      Some (map_of (rev (map (\<lambda>(k, v). (k, value_json v)) ?ms)))"
    using assms(1) unfolding reads_document_def by (rule allE [of _ ?ms]) (use assms(2) plain_keys in simp)
  then show ?thesis
    by (simp add: script_call_def client_script_def connect_env_def hook_request_def)
qed

lemma disconnect_call:
  assumes "reads_document read" "json_plain (ses_uuid ses)"
  shows "script_call read (ses_instance ses)
      (client_script (ses_instance ses) port (disconnect_env ses (rx, tx, d))) =
    Some (DeleteClients (hook_request (ses_instance ses) (ses_uuid ses) (Some (JNum (of_int d)))))"
proof -
  let ?ms = "[(''common_name'', SStr (ses_uuid ses)), (''bytes_received'', SNum rx), (''bytes_sent'', SNum tx),
    (''time_duration'', SNum d)]"
  have "read (here_document (map (\<lambda>(k, v). (k, value_text v)) ?ms)) =
      Some (map_of (rev (map (\<lambda>(k, v). (k, value_json v)) ?ms)))"
    using assms(1) unfolding reads_document_def by (rule allE [of _ ?ms]) (use assms(2) plain_keys in simp)
  then show ?thesis
    by (simp add: script_call_def client_script_def disconnect_env_def hook_request_def)
qed

lemma session_calls_plain:
  assumes "reads_document read" "json_plain (ses_uuid ses)"
  shows "session_calls read port ses =
    PostClients (hook_request (ses_instance ses) (ses_uuid ses) None) #
    (case ses_end ses of None \<Rightarrow> []
     | Some (rx, tx, d) \<Rightarrow>
         [DeleteClients (hook_request (ses_instance ses) (ses_uuid ses) (Some (JNum (of_int d))))])"
  using connect_call [OF assms] disconnect_call [OF assms]
  by (cases "ses_end ses")
    (simp_all add: session_calls_def session_requests_def List.map_filter_def split: prod.splits)

text \<open>The balance of a set of calls does not depend on their order.\<close>

lemma balance_mset:
  "balance cs u = sum_mset (image_mset call_delta (filter_mset (accepted u) (mset cs)))"
  by (simp add: balance_def flip: mset_filter mset_map sum_mset_sum_list)

lemma balance_append: "balance (cs @ ds) u = balance cs u + balance ds u"
  by (simp add: balance_def)

lemma hook_accepted [simp]:
  "accepted v (PostClients (hook_request i u d)) \<longleftrightarrow> u = v"
  "accepted v (DeleteClients (hook_request i u d)) \<longleftrightarrow> u = v"
  by (auto simp: accepted_def hook_request_def fromLocalHost_def)

lemma sessions_balance:
  assumes "reads_document read" "list_all (\<lambda>ses. json_plain (ses_uuid ses)) ss"
  shows "balance (concat (map (session_calls read port) ss)) u = int (open_sessions ss u)"
  using assms(2)
proof (induction ss)
  case (Cons ses ss)
  then have "balance (session_calls read port ses) u = (if ses_uuid ses = u \<and> ses_end ses = None then 1 else 0)"
    by (auto simp: session_calls_plain [OF assms(1)] balance_def split: option.splits prod.splits)
  then show ?case using Cons by (simp add: balance_append open_sessions_def)
qed (simp add: balance_def open_sessions_def)

lemma arrivals_balance:
  assumes "reads_document read" "list_all (\<lambda>ses. json_plain (ses_uuid ses)) ss"
    and "mset cs = mset (concat (map (session_calls read port) ss))"
  shows "balance cs u = int (open_sessions ss u)"
  using sessions_balance [OF assms(1,2), of port u] assms(3) by (simp only: balance_mset)

lemma open_sessions_iff:
  "1 \<le> int (open_sessions ss u) \<longleftrightarrow> (\<exists>ses \<in> set ss. ses_uuid ses = u \<and> ses_end ses = None)"
proof -
  have "1 \<le> int (open_sessions ss u) \<longleftrightarrow> filter (\<lambda>ses. ses_uuid ses = u \<and> ses_end ses = None) ss \<noteq> []"
    by (cases "filter (\<lambda>ses. ses_uuid ses = u \<and> ses_end ses = None) ss") (simp_all add: open_sessions_def)
  then show ?thesis unfolding filter_empty_conv by blast
qed

subsection \<open>A reader of here-documents\<close>

text \<open>Line by line; cut at the quotes, a line with a string member has five pieces, one with a number has
  three.\<close>

definition line_member :: "string \<Rightarrow> (string \<times> json) list" where
  "line_member l =
     (case split_char CHR 0x22 l of
        [_, k, _, v, _] \<Rightarrow> [(k, JStr v)]
      | [_, k, n] \<Rightarrow>
          (case parseInt (takeWhile (\<lambda>c. c \<noteq> CHR '','') (drop 2 n)) of
             Some i \<Rightarrow> [(k, JNum (of_int i))]
           | None \<Rightarrow> [])
      | _ \<Rightarrow> [])"

definition demo_document :: "string \<Rightarrow> (string \<rightharpoonup> json) option" where
  "demo_document body = Some (map_of (rev (concat (map line_member (split_char LF body)))))"

fun comma_lines :: "string list \<Rightarrow> string list" where
  "comma_lines [] = [[]]"
| "comma_lines [l] = [l]"
| "comma_lines (l # m # ls) = (l @ '','') # comma_lines (m # ls)"

lemma comma_lines_nonempty [simp]: "comma_lines ls \<noteq> []"
  by (induction ls rule: comma_lines.induct) simp_all

lemma join_Cons: "ls \<noteq> [] \<Longrightarrow> join sep (l # ls) = l @ sep @ join sep ls"
  by (cases ls) simp_all

lemma join_append: "ks \<noteq> [] \<Longrightarrow> ls \<noteq> [] \<Longrightarrow> join sep (ks @ ls) = join sep ks @ sep @ join sep ls"
  by (induction ks rule: induct_list012) (simp_all add: join_Cons)

lemma join_comma_lines: "join ('','' @ [LF]) ls = join [LF] (comma_lines ls)"
  by (induction ls rule: comma_lines.induct) (simp_all add: join_Cons)

lemma document_lines:
  "here_document ms =
     join [LF] ([''{''] @ comma_lines (map (\<lambda>(k, v). quoted k @ '': '' @ v) ms) @ [''}'', ''''])"
  by (simp add: here_document_def join_comma_lines [simplified] join_Cons join_append)

lemma show_int_chars:
  assumes "c \<in> set (show_int i)"
  shows "c \<noteq> LF" "c \<noteq> CHR 0x22" "c \<noteq> CHR '',''"
  using assms show_nat_digits [of "nat i"] show_nat_digits [of "nat (- i)"]
  by (auto simp: show_int_def is_digit_def split: if_splits)

lemma plain_no_LF:
  assumes "json_plain s"
  shows "LF \<notin> set s"
proof
  assume "LF \<in> set s"
  with assms have "32 \<le> (of_char LF :: nat)" unfolding json_plain_def list_all_iff by blast
  then show False by simp
qed

definition member_line :: "string \<times> script_value \<Rightarrow> string" where
  "member_line m = quoted (fst m) @ '': '' @ value_text (snd m)"

lemma line_member_line:
  assumes "json_plain k" "value_plain v" "t = '''' \<or> t = '',''"
  shows "line_member (member_line (k, v) @ t) = [(k, value_json v)]"
proof (cases v)
  case (SStr x)
  have "split_char CHR 0x22 t = [t]" using assms(3) by auto
  then have "split_char CHR 0x22 (member_line (k, v) @ t) = ['''', k, '': '', x, t]"
    using assms(1,2) SStr by (simp add: member_line_def quoted_def split_char_append plain_no_quote)
  then show ?thesis using SStr by (simp add: line_member_def)
next
  case (SNum i)
  have "CHR 0x22 \<notin> set ('': '' @ show_int i @ t)" using assms(3) show_int_chars by auto
  then have "split_char CHR 0x22 (member_line (k, v) @ t) = ['''', k, '': '' @ show_int i @ t]"
    using assms(1) SNum split_char_append [of "CHR 0x22" k] split_char_none [of "CHR 0x22" "'': '' @ show_int i @ t"]
    by (simp add: member_line_def quoted_def plain_no_quote)
  moreover have "takeWhile (\<lambda>c. c \<noteq> CHR '','') (show_int i @ t) = show_int i"
    using assms(3) show_int_chars(3) [of _ i] by (auto simp: takeWhile_append2)
  ultimately show ?thesis using SNum by (simp add: line_member_def)
qed

lemma comma_lines_members:
  assumes "list_all (\<lambda>(k, v). json_plain k \<and> value_plain v) ms"
  shows "concat (map line_member (comma_lines (map member_line ms))) = map (\<lambda>(k, v). (k, value_json v)) ms"
    and "\<forall>l \<in> set (comma_lines (map member_line ms)). LF \<notin> set l"
proof -
  have clean: "LF \<notin> set (member_line (k, v))" if "json_plain k" "value_plain v" for k v
    using that plain_no_LF show_int_chars(1) by (cases v) (auto simp: member_line_def quoted_def)
  show "concat (map line_member (comma_lines (map member_line ms))) = map (\<lambda>(k, v). (k, value_json v)) ms"
    using assms
  proof (induction ms rule: induct_list012)
    case 1
    then show ?case by (simp add: line_member_def)
  next
    case (2 m)
    then show ?case using line_member_line [of "fst m" "snd m" "''''"] by (auto simp: split_def)
  next
    case (3 m n ms)
    then show ?case using line_member_line [of "fst m" "snd m" "'',''"] by (auto simp: split_def)
  qed
  show "\<forall>l \<in> set (comma_lines (map member_line ms)). LF \<notin> set l"
    using assms
  proof (induction ms rule: induct_list012)
    case 1
    then show ?case by simp
  next
    case (2 m)
    then show ?case using clean [of "fst m" "snd m"] by (auto simp: split_def)
  next
    case (3 m n ms)
    then show ?case using clean [of "fst m" "snd m"] by (auto simp: split_def)
  qed
qed

lemma demo_document_ok: "reads_document demo_document"
  unfolding reads_document_def
proof (intro allI impI)
  fix ms
  assume ms: "list_all (\<lambda>(k, v). json_plain k \<and> value_plain v) ms"
  let ?lines = "[''{''] @ comma_lines (map member_line ms) @ [''}'', '''']"
  have "here_document (map (\<lambda>(k, v). (k, value_text v)) ms) = join [LF] ?lines"
    by (simp add: document_lines comp_def split_def member_line_def [abs_def])
  moreover have "split_char LF (join [LF] ?lines) = ?lines"
    using comma_lines_members(2) [OF ms] by (intro split_char_join) auto
  moreover have "line_member ''{'' = []" "line_member ''}'' = []" "line_member '''' = []"
    by (simp_all add: line_member_def)
  ultimately show "demo_document (here_document (map (\<lambda>(k, v). (k, value_text v)) ms)) =
      Some (map_of (rev (map (\<lambda>(k, v). (k, value_json v)) ms)))"
    using comma_lines_members(1) [OF ms] by (simp add: demo_document_def)
qed

end
