(* ===== verification/Learn_Address.thy ===== *)
theory Learn_Address
  imports Config
begin

text \<open>
  \<^verbatim>\<open>openvpn/scripts/learn-address.sh\<close>: the script that OpenVPN runs when it learns, updates or forgets the
  address of a client, and that limits the client's bandwidth with the kernel's traffic control.

  What the script keeps from one run to the next are the files of its state directory: the last class
  id given out, and for an address its class id and the device it is limited on.  The commands to
  \<open>tc\<close> are outputs; the script goes on in the same way whether they succeed or fail.  Addresses and
  devices are words without blanks, as OpenVPN passes them.  Runs follow one another: the instances
  share one state directory, and runs that overlap are not modelled.  Logging is not modelled.
\<close>

subsection \<open>The script\<close>

record shaper =
  last_classid :: "int option"
  classid_of :: "string \<rightharpoonup> int"
  dev_of :: "string \<rightharpoonup> string"

datatype tc_command =
    QdiscRoot string
  | QdiscIngress string
  | ClassAdd string int string
  | ClassDel string int
  | FilterDstAdd string string int
  | FilterDstDel string string
  | FilterSrcAdd string string string int
  | FilterSrcDel string string

datatype shaper_out = Tc tc_command | ExitCode int

definition shaper_init :: shaper where
  "shaper_init = \<lparr> last_classid = None, classid_of = Map.empty, dev_of = Map.empty \<rparr>"

definition bwlimit_disable :: "string \<Rightarrow> shaper \<Rightarrow> shaper \<times> tc_command list" where
  "bwlimit_disable ip st =
     (case classid_of st ip of
        None \<Rightarrow> (st, [])
      | Some classid \<Rightarrow>
          (case dev_of st ip of
             None \<Rightarrow> (st, [])
           | Some dev_from_state \<Rightarrow>
               (st\<lparr>dev_of := (dev_of st)(ip := None)\<rparr>,
                [FilterDstDel dev_from_state ip, ClassDel dev_from_state classid,
                 FilterSrcDel dev_from_state ip])))"

definition next_classid :: "shaper \<Rightarrow> int" where
  "next_classid st = (case last_classid st of None \<Rightarrow> 1 | Some c \<Rightarrow> c + 1)"

definition bwlimit_enable ::
  "string \<Rightarrow> string \<Rightarrow> string \<Rightarrow> string \<Rightarrow> shaper \<Rightarrow> shaper \<times> tc_command list" where
  "bwlimit_enable downrate uprate dev ip st =
     (let (st1, off) = bwlimit_disable ip st;
          (classid, st2) =
            (case classid_of st1 ip of
               Some c \<Rightarrow> (c, st1)
             | None \<Rightarrow> (next_classid st1, st1\<lparr>last_classid := Some (next_classid st1)\<rparr>))
      in (st2\<lparr>classid_of := (classid_of st2)(ip \<mapsto> classid), dev_of := (dev_of st2)(ip \<mapsto> dev)\<rparr>,
          off @ [ClassAdd dev classid downrate, FilterDstAdd dev ip classid, FilterSrcAdd dev ip uprate classid]))"

text \<open>\<open>$n\<close>, and the device: the last argument that looks like one, or else the variable \<open>dev\<close>.\<close>

definition script_arg :: "string list \<Rightarrow> nat \<Rightarrow> string" where
  "script_arg args n = (if 1 \<le> n \<and> n \<le> length args then args ! (n - 1) else '''')"

definition looks_like_dev :: "string \<Rightarrow> bool" where
  "looks_like_dev arg \<longleftrightarrow> arg \<noteq> ''debug'' \<and> (starts_with arg ''tun'' \<or> starts_with arg ''tap'' \<or> arg = ''lo'')"

definition script_dev :: "string option \<Rightarrow> string list \<Rightarrow> string" where
  "script_dev env_dev args =
     fold (\<lambda>arg dev. if looks_like_dev arg then arg else dev) args (case env_dev of None \<Rightarrow> '''' | Some d \<Rightarrow> d)"

definition bad_arguments :: "string option \<Rightarrow> string list \<Rightarrow> bool" where
  "bad_arguments env_dev args \<longleftrightarrow>
     (if script_arg args 3 = ''delete'' then length args < 4 else length args < 5) \<or>
     script_arg args 3 \<noteq> ''delete'' \<and> script_dev env_dev args = '''' \<or>
     \<not> is_rate (script_arg args 1) \<or> \<not> is_rate (script_arg args 2)"

definition qdisc_setup :: "string \<Rightarrow> tc_command list" where
  "qdisc_setup dev = (if dev \<noteq> '''' then [QdiscRoot dev, QdiscIngress dev] else [])"

definition learn_action ::
  "string \<Rightarrow> string \<Rightarrow> string \<Rightarrow> string \<Rightarrow> string \<Rightarrow> shaper \<Rightarrow> (shaper \<times> tc_command list) \<times> int" where
  "learn_action downrate uprate dev action ip st =
     (if action \<in> {''add'', ''update''} then (bwlimit_enable downrate uprate dev ip st, 0)
      else if action = ''delete'' then (bwlimit_disable ip st, 0)
      else ((st, []), 1))"

definition learn_address :: "shaper \<Rightarrow> string option \<times> string list \<Rightarrow> shaper \<times> shaper_out list" where
  "learn_address st run =
     (let (env_dev, args) = run; dev = script_dev env_dev args
      in if bad_arguments env_dev args then (st, [ExitCode 1])
         else let ((st', cmds), code) =
                learn_action (script_arg args 1) (script_arg args 2) dev (script_arg args 3) (script_arg args 4) st
              in (st', map Tc (qdisc_setup dev @ cmds) @ [ExitCode code]))"

text \<open>The rates that a loaded configuration gives to the plugin pass the checks of the script.\<close>

lemma configured_rates_accepted:
  assumes "load_config env host = Inr c" "throttle_args (openvpn_config.truncate c) m \<noteq> []"
    and "action \<in> {''add'', ''update''}"
  shows "last (snd (learn_address st (env_dev,
      [the (VPN_DOWNRATE c), the (VPN_UPRATE c), action, ip, cn, ''tun'' @ show_int i]))) = ExitCode 0"
proof -
  have rates: "is_rate (the (VPN_DOWNRATE c))" "is_rate (the (VPN_UPRATE c))"
    using load_config_Inr(1) [OF assms(1)] assms(2)
    by (auto simp: check_rates_ok throttle_args_def truncate_rates split: if_splits)
  have dev: "script_dev env_dev [the (VPN_DOWNRATE c), the (VPN_UPRATE c), action, ip, cn, ''tun'' @ show_int i] =
      ''tun'' @ show_int i"
    by (simp add: script_dev_def looks_like_dev_def)
  have "action \<noteq> ''delete''" using assms(3) by auto
  then show ?thesis
    using rates dev assms(3)
    by (simp add: learn_address_def bad_arguments_def script_arg_def learn_action_def split_def Let_def
        numeral_2_eq_2 numeral_3_eq_3)
qed

subsection \<open>Invariant\<close>

text \<open>The class ids given out are exactly the numbers from one to the last one, one for each address.\<close>

definition shaper_inv :: "shaper \<Rightarrow> bool" where
  "shaper_inv st \<longleftrightarrow> finite (dom (classid_of st)) \<and> (\<forall>x y c. classid_of st x = Some c \<and> classid_of st y = Some c \<longrightarrow> x = y) \<and>
     ran (classid_of st) = {1..next_classid st - 1} \<and> 0 < next_classid st \<and>
     dom (dev_of st) \<subseteq> dom (classid_of st)"

lemma disable_inv: "shaper_inv st \<Longrightarrow> shaper_inv (fst (bwlimit_disable ip st))"
  by (auto simp: bwlimit_disable_def shaper_inv_def next_classid_def split: option.splits)

lemma disable_files [simp]:
  "classid_of (fst (bwlimit_disable ip st)) = classid_of st"
  "last_classid (fst (bwlimit_disable ip st)) = last_classid st"
  by (auto simp: bwlimit_disable_def split: option.splits)

lemma disable_dev:
  "shaper_inv st \<Longrightarrow> dev_of (fst (bwlimit_disable ip st)) = (dev_of st)(ip := None)"
  by (auto simp: bwlimit_disable_def shaper_inv_def fun_eq_iff split: option.splits)

lemma enable_files:
  assumes "shaper_inv st"
  obtains c where "classid_of (fst (bwlimit_enable down up dev ip st)) = (classid_of st)(ip \<mapsto> c)"
    "dev_of (fst (bwlimit_enable down up dev ip st)) = (dev_of st)(ip \<mapsto> dev)"
    "snd (bwlimit_enable down up dev ip st) =
       snd (bwlimit_disable ip st) @ [ClassAdd dev c down, FilterDstAdd dev ip c, FilterSrcAdd dev ip up c]"
    "case classid_of st ip of
       Some d \<Rightarrow> c = d \<and> next_classid (fst (bwlimit_enable down up dev ip st)) = next_classid st
     | None \<Rightarrow> c = next_classid st \<and> next_classid (fst (bwlimit_enable down up dev ip st)) = next_classid st + 1"
proof -
  let ?c = "case classid_of st ip of Some d \<Rightarrow> d | None \<Rightarrow> next_classid st"
  show ?thesis
    using disable_dev [OF assms, of ip]
    by (intro that [of ?c])
      (auto simp: bwlimit_enable_def Let_def split_def next_classid_def split: option.splits)
qed

lemma enable_inv:
  assumes "shaper_inv st"
  shows "shaper_inv (fst (bwlimit_enable down up dev ip st))"
proof -
  let ?st = "fst (bwlimit_enable down up dev ip st)"
  obtain c where c: "classid_of ?st = (classid_of st)(ip \<mapsto> c)" "dev_of ?st = (dev_of st)(ip \<mapsto> dev)"
    "case classid_of st ip of
       Some d \<Rightarrow> c = d \<and> next_classid ?st = next_classid st
     | None \<Rightarrow> c = next_classid st \<and> next_classid ?st = next_classid st + 1"
    by (rule enable_files [OF assms])
  show ?thesis
  proof (cases "classid_of st ip")
    case None
    then have n: "c = next_classid st" "next_classid ?st = next_classid st + 1" using c(3) by auto
    have "classid_of st x \<noteq> Some c" for x
      using assms n(1) by (auto simp: shaper_inv_def dest: ranI)
    then show ?thesis using assms n c(1,2) None by (auto simp: shaper_inv_def)
  next
    case (Some d)
    then have "classid_of ?st = classid_of st" using c(1,3) by auto
    then show ?thesis using assms c Some by (auto simp: shaper_inv_def)
  qed
qed

lemma learn_action_inv: "shaper_inv st \<Longrightarrow> shaper_inv (fst (fst (learn_action down up dev action ip st)))"
  by (simp add: learn_action_def enable_inv disable_inv)

interpretation shaper_machine: machine_invariant learn_address shaper_inv
proof
  fix st run
  assume "shaper_inv st"
  then show "shaper_inv (fst (learn_address st run))"
    by (simp add: learn_address_def Let_def split_def learn_action_inv)
qed

lemma shaper_inv_init: "shaper_inv shaper_init"
  by (simp add: shaper_inv_def shaper_init_def next_classid_def)

subsection \<open>The classes in the kernel\<close>

text \<open>\<open>tc\<close> reads the number after the colon of a class id as a hexadecimal number of 16 bits.\<close>

definition hex_value :: "string \<Rightarrow> nat" where
  "hex_value s = foldl (\<lambda>n c. 16 * n + digit_val c) 0 s"

definition minor_ok :: "int \<Rightarrow> bool" where
  "minor_ok c \<longleftrightarrow> hex_value (show_int c) < 2 ^ 16"

lemma hex_value_show_nat:
  "hex_value (show_nat n) = (if n < 10 then n else 16 * hex_value (show_nat (n div 10)) + n mod 10)"
  by (subst show_nat.simps) (simp add: hex_value_def digit_val_digit_char)

lemma hex_value_less: "n < 10 ^ k \<Longrightarrow> hex_value (show_nat n) < 16 ^ k"
proof (induction k arbitrary: n)
  case 0
  then show ?case by (subst hex_value_show_nat) simp
next
  case (Suc k)
  then have "n div 10 < 10 ^ k" by (simp add: div_less_iff_less_mult mult.commute)
  from Suc.IH [OF this] have "16 * hex_value (show_nat (n div 10)) + n mod 10 < 16 ^ Suc k"
    using mod_less_divisor [of 10 n] by simp
  moreover have "(10 :: nat) \<le> 16 ^ Suc k"
    using one_le_power [of "16 :: nat" k] unfolding power_Suc by linarith
  ultimately show ?case by (subst hex_value_show_nat) auto
qed

lemma hex_value_ge: "10 ^ k \<le> n \<Longrightarrow> 0 < n \<Longrightarrow> 16 ^ k \<le> hex_value (show_nat n)"
proof (induction k arbitrary: n)
  case 0
  have "0 < n \<Longrightarrow> 0 < hex_value (show_nat n)" for n
  proof (induction n rule: less_induct)
    case (less n)
    then show ?case using less.IH [of "n div 10"] by (subst hex_value_show_nat) auto
  qed
  from this [of n] 0 show ?case by simp
next
  case (Suc k)
  then have "10 ^ k \<le> n div 10" by (simp add: less_eq_div_iff_mult_less_eq mult.commute)
  moreover have "10 \<le> n"
    using Suc.prems(1) one_le_power [of "10 :: nat" k] unfolding power_Suc by linarith
  ultimately have "16 ^ k \<le> hex_value (show_nat (n div 10))" by (intro Suc.IH) simp_all
  then show ?case using \<open>10 \<le> n\<close> by (subst hex_value_show_nat) simp
qed

lemma minor_ok_iff: "1 \<le> c \<Longrightarrow> minor_ok c \<longleftrightarrow> c < 10000"
  using hex_value_less [of "nat c" 4] hex_value_ge [of 4 "nat c"]
  by (cases "nat c < 10000") (simp_all add: minor_ok_def show_int_def)

text \<open>What the commands mean for the bandwidth classes: a class is there from its addition to its
  deletion, unless its id is not a number that \<open>tc\<close> accepts.  Adding one that is there already would
  fail.\<close>

fun class_effect :: "shaper_out \<Rightarrow> (string \<times> int) set \<Rightarrow> (string \<times> int) set" where
  "class_effect (Tc (ClassAdd dev c rate)) cs = (if minor_ok c then insert (dev, c) cs else cs)"
| "class_effect (Tc (ClassDel dev c)) cs = cs - {(dev, c)}"
| "class_effect _ cs = cs"

fun no_clash :: "shaper_out list \<Rightarrow> (string \<times> int) set \<Rightarrow> bool" where
  "no_clash [] cs = True"
| "no_clash (out # outs) cs =
     ((case out of Tc (ClassAdd dev c rate) \<Rightarrow> (dev, c) \<notin> cs | _ \<Rightarrow> True) \<and> no_clash outs (class_effect out cs))"

lemma no_clash_append: "no_clash (xs @ ys) cs \<longleftrightarrow> no_clash xs cs \<and> no_clash ys (fold class_effect xs cs)"
  by (induction xs arbitrary: cs) auto

definition limited :: "shaper \<Rightarrow> (string \<times> int) set" where
  "limited st = {(dev, c). \<exists>ip. dev_of st ip = Some dev \<and> classid_of st ip = Some c}"

definition in_kernel :: "shaper \<Rightarrow> (string \<times> int) set" where
  "in_kernel st = {x \<in> limited st. minor_ok (snd x)}"

lemma disable_effect:
  assumes "shaper_inv st"
  shows "fold class_effect (map Tc (snd (bwlimit_disable ip st))) (in_kernel st) =
      in_kernel (fst (bwlimit_disable ip st))"
    and "no_clash (map Tc (snd (bwlimit_disable ip st))) cs"
  using assms by (auto simp: bwlimit_disable_def in_kernel_def limited_def shaper_inv_def split: option.splits if_splits)
    (metis option.inject)+

lemma enable_effect:
  assumes "shaper_inv st"
  shows "fold class_effect (map Tc (snd (bwlimit_enable down up dev ip st))) (in_kernel st) =
      in_kernel (fst (bwlimit_enable down up dev ip st)) \<and>
    no_clash (map Tc (snd (bwlimit_enable down up dev ip st))) (in_kernel st)"
proof -
  let ?st = "fst (bwlimit_enable down up dev ip st)" and ?off = "fst (bwlimit_disable ip st)"
  obtain c where c: "classid_of ?st = (classid_of st)(ip \<mapsto> c)" "dev_of ?st = (dev_of st)(ip \<mapsto> dev)"
    "snd (bwlimit_enable down up dev ip st) =
       snd (bwlimit_disable ip st) @ [ClassAdd dev c down, FilterDstAdd dev ip c, FilterSrcAdd dev ip up c]"
    and new: "case classid_of st ip of
       Some d \<Rightarrow> c = d \<and> next_classid ?st = next_classid st
     | None \<Rightarrow> c = next_classid st \<and> next_classid ?st = next_classid st + 1"
    by (rule enable_files [OF assms])
  have mine: "x = ip" if "classid_of st x = Some c" for x
    using that new assms by (cases "classid_of st ip") (auto simp: shaper_inv_def dest: ranI)
  then have "limited ?st = insert (dev, c) (limited ?off)"
    by (auto simp: limited_def c(1,2) disable_dev [OF assms])
  then have "in_kernel ?st = (if minor_ok c then insert (dev, c) (in_kernel ?off) else in_kernel ?off)"
    by (auto simp: in_kernel_def)
  moreover have "(dev, c) \<notin> in_kernel ?off"
    using mine by (auto simp: in_kernel_def limited_def disable_dev [OF assms])
  ultimately show ?thesis
    using disable_effect [OF assms, of ip] by (simp add: c(3) no_clash_append)
qed

lemma qdisc_effect [simp]:
  "fold class_effect (map Tc (qdisc_setup dev)) cs = cs" "no_clash (map Tc (qdisc_setup dev)) cs"
  by (simp_all add: qdisc_setup_def)

lemma learn_address_effect:
  assumes "shaper_inv st"
  shows "fold class_effect (snd (learn_address st run)) (in_kernel st) = in_kernel (fst (learn_address st run)) \<and>
    no_clash (snd (learn_address st run)) (in_kernel st)"
proof -
  have "fold class_effect (map Tc (snd (fst (learn_action down up dev action ip st)))) (in_kernel st) =
      in_kernel (fst (fst (learn_action down up dev action ip st))) \<and>
    no_clash (map Tc (snd (fst (learn_action down up dev action ip st)))) (in_kernel st)" for down up dev action ip
    using enable_effect [OF assms] disable_effect [OF assms] by (simp add: learn_action_def)
  then show ?thesis by (simp add: learn_address_def Let_def split_def no_clash_append)
qed

lemma runs_effect:
  assumes "run_events learn_address st runs = (st', outs)" "shaper_inv st"
  shows "fold class_effect outs (in_kernel st) = in_kernel st' \<and> no_clash outs (in_kernel st)"
  using assms
proof (induction runs arbitrary: st outs)
  case (Cons r rs)
  obtain st1 o1 where r: "learn_address st r = (st1, o1)" by fastforce
  obtain st2 o2 where rs: "run_events learn_address st1 rs = (st2, o2)" by fastforce
  then have "st2 = st'" "outs = o1 @ o2" using Cons.prems(1) r by auto
  note rs = rs [unfolded this(1)] this(2)
  have "shaper_inv st1" using shaper_machine.step_inv [OF Cons.prems(2), of r] r by simp
  with Cons.IH [OF rs(1)] learn_address_effect [OF Cons.prems(2), of r] r rs(2)
  show ?case by (simp add: no_clash_append)
qed simp

text \<open>C20. Each client has a bandwidth class of its own.  After any sequence of runs of the script, one
  after the other, valid or not, with any arguments: different addresses have different class
  ids; when \<open>tc\<close> refuses only the ids that it cannot represent, the classes that the commands have
  left in the kernel are exactly those of the addresses that are limited at the moment, on the
  device they were added on, as far as their ids are below 10000; and no command ever added a
  class that was still there.  (Runs of different instances share the state directory and may
  overlap; overlapping runs are not covered.)\<close>

theorem classes_match_clients:
  assumes "run_events learn_address shaper_init runs = (st, outs)"
  shows "fold class_effect outs {} = {(dev, c). (dev, c) \<in> limited st \<and> c < 10000} \<and> no_clash outs {} \<and>
    (\<forall>x y c. classid_of st x = Some c \<and> classid_of st y = Some c \<longrightarrow> x = y) \<and>
    dom (dev_of st) \<subseteq> dom (classid_of st)"
proof -
  have start: "in_kernel shaper_init = {}" by (simp add: in_kernel_def limited_def shaper_init_def)
  have inv: "shaper_inv st" using shaper_machine.run_inv [OF shaper_inv_init, of runs] assms by simp
  then have "1 \<le> c" if "(dev, c) \<in> limited st" for dev c
    using that by (auto simp: limited_def shaper_inv_def dest: ranI)
  then have "in_kernel st = {(dev, c). (dev, c) \<in> limited st \<and> c < 10000}"
    using minor_ok_iff by (auto simp: in_kernel_def)
  then show ?thesis
    using runs_effect [OF assms shaper_inv_init] inv start by (auto simp: shaper_inv_def)
qed

definition demo_shaping :: "(string option \<times> string list) list" where
  "demo_shaping =
     [(None, [''10mbit'', ''5mbit'', ''add'', ''10.0.0.1'', ''c0ffee'', ''tun1'']),
      (None, [''10mbit'', ''5mbit'', ''add'', ''10.0.0.2'', ''beef'', ''tun1'']),
      (None, [''10mbit'', ''5mbit'', ''delete'', ''10.0.0.1''])]"

lemma demo_shaping_files:
  "classid_of (fst (run_events learn_address shaper_init demo_shaping)) = [''10.0.0.1'' \<mapsto> 1, ''10.0.0.2'' \<mapsto> 2]"
  "dev_of (fst (run_events learn_address shaper_init demo_shaping)) = [''10.0.0.2'' \<mapsto> ''tun1'']"
  by (simp_all add: demo_shaping_def learn_address_def learn_action_def bad_arguments_def script_arg_def
      script_dev_def looks_like_dev_def is_rate_def is_digit_def bwlimit_enable_def bwlimit_disable_def
      shaper_init_def next_classid_def numeral_3_eq_3 numeral_2_eq_2 Let_def fun_eq_iff)

theorem classes_match_clients_witness:
  "fold class_effect (snd (run_events learn_address shaper_init demo_shaping)) {} = {(''tun1'', 2)}"
proof -
  let ?st = "fst (run_events learn_address shaper_init demo_shaping)"
  have "fold class_effect (snd (run_events learn_address shaper_init demo_shaping)) {} =
      {(dev, c). (dev, c) \<in> limited ?st \<and> c < 10000}"
    using classes_match_clients [of demo_shaping ?st] by simp
  moreover have "limited ?st = {(''tun1'', 2)}"
    by (auto simp: limited_def demo_shaping_files split: if_splits)
  moreover have "{(dev, c). (dev, c) \<in> {(''tun1'', 2 :: int)} \<and> c < 10000} = {(''tun1'', 2)}" by auto
  ultimately show ?thesis by (simp only:)
qed

subsection \<open>The range of class ids\<close>

lemma classids_count:
  assumes "shaper_inv st"
  shows "int (card (dom (classid_of st))) = next_classid st - 1"
proof -
  let ?f = "\<lambda>ip. the (classid_of st ip)"
  have "inj_on ?f (dom (classid_of st))" using assms by (auto simp: inj_on_def shaper_inv_def)
  moreover have "?f ` dom (classid_of st) = ran (classid_of st)" by (force simp: ran_def)
  ultimately have "card (dom (classid_of st)) = card (ran (classid_of st))" using card_image by metis
  then show ?thesis using assms by (simp add: shaper_inv_def)
qed

text \<open>C21. Class ids run out.  They are given out in decimal, one after the other, and never given back, but
  \<open>tc\<close> reads them as hexadecimal numbers of 16 bits.  So after any runs of the script all class ids
  can be used exactly if at most 9999 different addresses have been limited; the next one gets
  the id 10000, which stands for 65536.\<close>

theorem class_ids_run_out:
  assumes "run_events learn_address shaper_init runs = (st, outs)"
  shows "ran (classid_of st) = {1..int (card (dom (classid_of st)))} \<and>
    ((\<forall>c \<in> ran (classid_of st). minor_ok c) \<longleftrightarrow> card (dom (classid_of st)) < 10000) \<and>
    hex_value ''10000'' = 2 ^ 16"
proof -
  have inv: "shaper_inv st" using shaper_machine.run_inv [OF shaper_inv_init, of runs] assms by simp
  then have ran: "ran (classid_of st) = {1..int (card (dom (classid_of st)))}"
    using classids_count by (simp add: shaper_inv_def)
  have "(\<forall>c \<in> ran (classid_of st). minor_ok c) \<longleftrightarrow> (\<forall>c \<in> ran (classid_of st). c < 10000)"
    using minor_ok_iff ran by auto
  also have "\<dots> \<longleftrightarrow> card (dom (classid_of st)) < 10000"
    unfolding ran by auto
  finally show ?thesis using ran by (simp add: hex_value_def digit_val_def)
qed

theorem class_ids_run_out_witness:
  "ran (classid_of (fst (run_events learn_address shaper_init demo_shaping))) = {1..2} \<and> minor_ok 2"
proof -
  let ?st = "fst (run_events learn_address shaper_init demo_shaping)"
  have "classid_of ?st = [''10.0.0.1'' \<mapsto> 1, ''10.0.0.2'' \<mapsto> 2]"
    by (rule demo_shaping_files)
  then have "card (dom (classid_of ?st)) = 2" by simp
  then show ?thesis using class_ids_run_out [OF prod.collapse [symmetric], of demo_shaping] by auto
qed

end
