(* ===== verification/Instances.thy ===== *)
theory Instances
  imports Vpn_Worker "HOL-Library.Sublist"
begin

text \<open>
  From the settings to the OpenVPN processes: the manager that \<^verbatim>\<open>src/vpn-worker.ts\<close> creates for an instance,
  and the command lines of the instances of one server side by side.
\<close>

subsection \<open>The manager of an instance\<close>

text \<open>\<open>m\<close> is the prefix length of the instance subnets; \<open>None\<close> if \<open>split\<close> does not return.\<close>

definition worker_manager :: "netmask_lib \<Rightarrow> config \<Rightarrow> int \<Rightarrow> int \<Rightarrow> vpn_manager result option" where
  "worker_manager lib c m inst =
     map_option (map_sum id (\<lambda>sub.
         VpnManager_new inst (fst (worker_ports c inst)) (snd (worker_ports c inst)) sub (VPN_GATEWAY c)))
       (getInstanceSubnet lib (VPN_BASE_IP c) (VPN_BASE_MASK c) m inst)"

definition instance_args :: "netmask_lib \<Rightarrow> config \<Rightarrow> int \<Rightarrow> int \<Rightarrow> string list result option" where
  "instance_args lib c m inst =
     map_option (\<lambda>r. bind_result r (manager_args (openvpn_config.truncate c))) (worker_manager lib c m inst)"

subsection \<open>Command lines\<close>

text \<open>The options that are an instance's own.\<close>

definition own_options :: "config \<Rightarrow> int \<Rightarrow> netmask \<Rightarrow> string list \<Rightarrow> bool" where
  "own_options c i s as \<longleftrightarrow>
     sublist [''--writepid'', ''/var/run/openvpn/server-'' @ show_int i @ ''.pid''] as \<and>
     sublist [''--status'', ''/run/openvpn/server-'' @ show_int i @ ''.status''] as \<and>
     sublist [''--dev'', ''tun'' @ show_int i] as \<and>
     sublist [''--port'', show_int (VPN_BASE_PORT c + i)] as \<and>
     sublist [''--management'', ''127.0.0.1'', show_int (VPN_BASE_MANAGEMENT_PORT c + i)] as \<and>
     sublist [''--ifconfig-pool'', third_addr s, last_addr s] as"

lemma instance_args_options:
  assumes "getInstanceSubnet lib (VPN_BASE_IP c) (VPN_BASE_MASK c) m i = Some (Inr (Some s))"
  obtains as where "instance_args lib c m i = Some (Inr as)" "own_options c i s as"
proof -
  let ?m = "VpnManager_new i (VPN_BASE_PORT c + i) (VPN_BASE_MANAGEMENT_PORT c + i) (Some s) (VPN_GATEWAY c)"
  let ?as = "projr (manager_args (openvpn_config.truncate c) ?m)"
  have "manager_args (openvpn_config.truncate c) ?m = Inr ?as"
    by (simp add: manager_args_def VpnManager_new_def Let_def)
  then have "instance_args lib c m i = Some (Inr ?as)"
    using assms by (simp add: instance_args_def worker_manager_def worker_ports_def bind_result_def)
  moreover have "own_options c i s ?as"
    unfolding own_options_def
    by (intro conjI)
      (simp_all add: manager_args_def VpnManager_new_def manager_pidFile_def Let_def sublist_Cons_right)
  ultimately show ?thesis by (rule that)
qed

lemma own_options_differ:
  assumes "own_options c i s as" "own_options c j t bs" "i \<noteq> j"
  shows "\<forall>flag \<in> {''--writepid'', ''--status'', ''--dev'', ''--port''}.
      \<exists>x y. sublist [flag, x] as \<and> sublist [flag, y] bs \<and> x \<noteq> y"
    and "\<exists>x y. sublist [''--management'', ''127.0.0.1'', x] as \<and> sublist [''--management'', ''127.0.0.1'', y] bs \<and> x \<noteq> y"
proof -
  have ne: "show_int i \<noteq> show_int j" "show_int (k + i) \<noteq> show_int (k + j)" for k
    using assms(3) by (simp_all add: show_int_inj)
  have differ: "\<exists>x y. sublist [flag, x] as \<and> sublist [flag, y] bs \<and> x \<noteq> y"
    if "sublist [flag, v] as" "sublist [flag, w] bs" "v \<noteq> w" for flag v w
    using that by blast
  show "\<forall>flag \<in> {''--writepid'', ''--status'', ''--dev'', ''--port''}.
      \<exists>x y. sublist [flag, x] as \<and> sublist [flag, y] bs \<and> x \<noteq> y"
    using assms(1,2) ne unfolding own_options_def ball_simps simp_thms
    by (intro conjI; elim conjE) (erule (1) differ, simp)+
  show "\<exists>x y. sublist [''--management'', ''127.0.0.1'', x] as \<and> sublist [''--management'', ''127.0.0.1'', y] bs \<and> x \<noteq> y"
    using assms(1,2) ne(2) unfolding own_options_def by blast
qed

text \<open>An instance without a subnet cannot be started: reading its first address fails, or, when a gateway
  is set, reading its second one.\<close>

lemma instance_without_subnet:
  assumes "getInstanceSubnet lib (VPN_BASE_IP c) (VPN_BASE_MASK c) m i = Some (Inr None)"
  shows "instance_args lib c m i = Some (Inl JsTypeError)"
  using assms
  by (simp add: instance_args_def worker_manager_def bind_result_def manager_args_def VpnManager_new_def)

text \<open>C12. The instances of a server do not get in each other's way.  When the configuration loads with the
  default subnet size, the base network is the aligned block \<open>a/b\<close> and the instance prefix length \<open>m\<close>
  leaves three usable addresses, every configured instance has a command line, and for two
  different instances these name different process id files, status files, network devices,
  ports and management ports, and address pools for the clients that lie in the base network and
  have no address in common.\<close>

theorem instances_do_not_collide:
  assumes "netmask_lib_ok lib" and "load_config env host = Inr c"
    and "env_int env ''VPN_INSTANCE_SUBNET_BITMASK'' = Inr None"
    and "VPN_BASE_IP c = lib_long2ip lib a" and "VPN_BASE_MASK c = int b" and "block_in_range a b"
    and "VPN_INSTANCE_SUBNET_BITMASK c = Some (int m)" and "m \<le> 29"
    and "1 \<le> i" and "i \<le> VPN_INSTANCE_COUNT c" and "1 \<le> j" and "j \<le> VPN_INSTANCE_COUNT c" and "i \<noteq> j"
  shows "\<exists>as bs. instance_args lib c (int m) i = Some (Inr as) \<and> instance_args lib c (int m) j = Some (Inr bs) \<and>
    (\<forall>flag \<in> {''--writepid'', ''--status'', ''--dev'', ''--port''}.
       \<exists>x y. sublist [flag, x] as \<and> sublist [flag, y] bs \<and> x \<noteq> y) \<and>
    (\<exists>x y. sublist [''--management'', ''127.0.0.1'', x] as \<and> sublist [''--management'', ''127.0.0.1'', y] bs \<and> x \<noteq> y) \<and>
    (\<exists>lo hi lo' hi'. sublist [''--ifconfig-pool'', lib_long2ip lib lo, lib_long2ip lib hi] as \<and>
       sublist [''--ifconfig-pool'', lib_long2ip lib lo', lib_long2ip lib hi'] bs \<and>
       a \<le> lo \<and> lo \<le> hi \<and> hi < a + 2 ^ (32 - b) \<and> {lo..hi} \<inter> {lo'..hi'} = {})"
proof -
  note hyps = assms(1-8)
  obtain s t where s: "getInstanceSubnet lib (VPN_BASE_IP c) (VPN_BASE_MASK c) (int m) i = Some (Inr (Some s))"
      "third_addr s = lib_long2ip lib (netLong s + 3)" "last_addr s = lib_long2ip lib (netLong s + net_size s - 2)"
      "a \<le> netLong s" "netLong s + net_size s \<le> a + 2 ^ (32 - b)" "8 \<le> net_size s"
    and disj: "{netLong s ..< netLong s + net_size s} \<inter> {netLong t ..< netLong t + net_size t} = {}"
    and t: "getInstanceSubnet lib (VPN_BASE_IP c) (VPN_BASE_MASK c) (int m) j = Some (Inr (Some t))"
    using instance_subnets_disjoint [OF hyps assms(9-12)] assms(13) by auto
  have t': "third_addr t = lib_long2ip lib (netLong t + 3)" "last_addr t = lib_long2ip lib (netLong t + net_size t - 2)"
    using instance_subnets_disjoint [OF hyps assms(11,12,11,12)] t by auto
  obtain as where as: "instance_args lib c (int m) i = Some (Inr as)" "own_options c i s as"
    by (rule instance_args_options [OF s(1)])
  obtain bs where bs: "instance_args lib c (int m) j = Some (Inr bs)" "own_options c j t bs"
    by (rule instance_args_options [OF t])
  have "\<exists>lo hi lo' hi'. sublist [''--ifconfig-pool'', lib_long2ip lib lo, lib_long2ip lib hi] as \<and>
       sublist [''--ifconfig-pool'', lib_long2ip lib lo', lib_long2ip lib hi'] bs \<and>
       a \<le> lo \<and> lo \<le> hi \<and> hi < a + 2 ^ (32 - b) \<and> {lo..hi} \<inter> {lo'..hi'} = {}"
  proof (intro exI conjI)
    show "sublist [''--ifconfig-pool'', lib_long2ip lib (netLong s + 3), lib_long2ip lib (netLong s + net_size s - 2)] as"
      using as(2) s(2,3) by (simp add: own_options_def)
    show "sublist [''--ifconfig-pool'', lib_long2ip lib (netLong t + 3), lib_long2ip lib (netLong t + net_size t - 2)] bs"
      using bs(2) t' by (simp add: own_options_def)
    have "{netLong s + 3..netLong s + net_size s - 2} \<subseteq> {netLong s ..< netLong s + net_size s}"
      "{netLong t + 3..netLong t + net_size t - 2} \<subseteq> {netLong t ..< netLong t + net_size t}" by auto
    then show "{netLong s + 3..netLong s + net_size s - 2} \<inter> {netLong t + 3..netLong t + net_size t - 2} = {}"
      using disj by blast
  qed (use s(4-6) in linarith)+
  with as bs own_options_differ [OF as(2) bs(2) assms(13)] show ?thesis by blast
qed

theorem instances_do_not_collide_witness:
  "\<exists>as bs. instance_args quad_lib demo_loaded 16 1 = Some (Inr as) \<and> instance_args quad_lib demo_loaded 16 6 = Some (Inr bs) \<and>
     (\<exists>x y. sublist [''--port'', x] as \<and> sublist [''--port'', y] bs \<and> x \<noteq> y)"
proof -
  have facts: "VPN_BASE_IP demo_loaded = lib_long2ip quad_lib 1681915904" "VPN_BASE_MASK demo_loaded = int 10"
      "VPN_INSTANCE_SUBNET_BITMASK demo_loaded = Some (int 16)" "VPN_INSTANCE_COUNT demo_loaded = 6"
      "env_int demo_env ''VPN_INSTANCE_SUBNET_BITMASK'' = Inr None"
    by code_simp+
  have "block_in_range 1681915904 10" by (simp add: block_in_range_def)
  from instances_do_not_collide [OF quad_lib_ok demo_loads facts(5,1,2) this facts(3), of 1 6]
  show ?thesis using facts(4) by auto
qed

end
