(* ===== verification/Runtime.thy ===== *)
theory Runtime
  imports Config Device
begin

text \<open>
  How the processes and the shared clients are set up: \<^verbatim>\<open>src/init.ts\<close>, \<^verbatim>\<open>src/utils/request.ts\<close>, and of
  \<^verbatim>\<open>src/utils/index.ts\<close> and \<^verbatim>\<open>src/utils/errors.ts\<close> the options that the loggers, the API client and
  Sentry are created with, and of \<^verbatim>\<open>src/api.ts\<close> the line of the access log.  The libraries themselves
  are outside the model.
\<close>

subsection \<open>The HTTP clients\<close>

record request_options =
  resolveWithFullResponse :: bool
  request_simple :: bool
  request_timeout :: int
  request_maxSockets :: "int option"

definition REQUEST_TIMEOUT :: int where
  "REQUEST_TIMEOUT = 59000"

definition request :: request_options where
  "request =
     \<lparr> resolveWithFullResponse = True, request_simple = False, request_timeout = REQUEST_TIMEOUT,
       request_maxSockets = None \<rparr>"

definition maxSockets :: "env_parsing \<Rightarrow> int result" where
  "maxSockets env =
     bind_result (env_int env ''MAX_API_POST_WORKERS'') (\<lambda>n. Inr (case n of None \<Rightarrow> 20 | Some k \<Rightarrow> k))"

definition pooledRequest :: "env_parsing \<Rightarrow> request_options result" where
  "pooledRequest env = bind_result (maxSockets env) (\<lambda>n. Inr (request\<lparr>request_maxSockets := Some n\<rparr>))"

subsection \<open>Loggers, the API client and Sentry\<close>

text \<open>The levels of \<open>winston.config.syslog\<close> are the argument \<open>levels\<close>.\<close>

record logger_options =
  logger_label_text :: string
  logger_level :: string
  logger_exitOnError :: bool
  logger_levels :: "string \<Rightarrow> nat option"

definition getLogger :: "(string \<Rightarrow> nat option) \<Rightarrow> string \<Rightarrow> int option \<Rightarrow> int option \<Rightarrow> logger_options" where
  "getLogger levels svc serviceId workerId =
     \<lparr> logger_label_text = logger_label svc serviceId workerId, logger_level = ''debug'',
       logger_exitOnError = False, logger_levels = levels \<rparr>"

definition apiPrefix :: "string \<Rightarrow> string" where
  "apiPrefix api_host = api_host @ ''/v7/''"

record sentry_options =
  sentry_dsn :: "string option"
  sentry_debug :: bool
  sentry_release :: string
  sentry_environment :: "string option"

definition Sentry_init :: "(string \<Rightarrow> string option) \<Rightarrow> string \<Rightarrow> sentry_options" where
  "Sentry_init env version =
     \<lparr> sentry_dsn = env ''SENTRY_DSN'', sentry_debug = (env ''NODE_ENV'' = Some ''development''),
       sentry_release = version, sentry_environment = env ''NODE_ENV'' \<rparr>"

text \<open>The line that the internal API writes for a request.\<close>

definition access_line ::
  "string \<Rightarrow> string option \<Rightarrow> string \<Rightarrow> string \<Rightarrow> string option \<Rightarrow> string option \<Rightarrow> string" where
  "access_line ip traceId meth url statusCode responseTime =
     (let dash = (\<lambda>v. case v of None \<Rightarrow> ''-'' | Some t \<Rightarrow> t)
      in join '' '' [ip, dash traceId, meth, url, dash statusCode, dash responseTime @ ''ms''])"

subsection \<open>The entry point\<close>

text \<open>Which module a process of the cluster goes on with.\<close>

definition init_modules :: "bool \<Rightarrow> bool \<Rightarrow> string list" where
  "init_modules isPrimary isWorker =
     (if isPrimary then [''./init-primary.js''] else []) @ (if isWorker then [''./init-worker.js''] else [])"

text \<open>The check at the head of each of the two modules.\<close>

definition module_guard :: "bool \<Rightarrow> bool \<Rightarrow> string \<Rightarrow> unit result" where
  "module_guard isPrimary isWorker path =
     (if path = ''./init-primary.js'' \<and> \<not> isPrimary
      then Inl (JsError ''init-primary should only be imported by the primary cluster process'')
      else if path = ''./init-worker.js'' \<and> \<not> isWorker
      then Inl (JsError ''init-worker should only be imported by a worker process'')
      else Inr ())"

subsection \<open>Properties\<close>

text \<open>The entry point never trips the checks of the modules it loads, and loads one module in each
  process of the cluster.\<close>

lemma init_modules_guarded:
  "path \<in> set (init_modules isPrimary isWorker) \<Longrightarrow> module_guard isPrimary isWorker path = Inr ()"
  "isWorker = (\<not> isPrimary) \<Longrightarrow> length (init_modules isPrimary isWorker) = 1"
  by (auto simp: init_modules_def module_guard_def split: if_splits)

text \<open>Loggers of one service with different instances or different workers have different labels.\<close>

lemma getLogger_labels:
  assumes "0 \<le> i" "0 \<le> j"
    and "logger_label_text (getLogger levels svc (Some i) (Some v)) =
      logger_label_text (getLogger levels svc (Some j) (Some w))"
  shows "i = j \<and> v = w"
proof -
  have digits: "CHR ''.'' \<notin> set (show_int k)" if "0 \<le> k" for k
    using show_nat_digits [of "nat k"] that by (auto simp: show_int_nonneg is_digit_def)
  have "show_int i @ CHR ''.'' # show_int v = show_int j @ CHR ''.'' # show_int w"
    using assms(3) by (simp add: getLogger_def logger_label_def)
  then have parts: "show_int i = show_int j" "show_int v = show_int w"
    using digits [OF assms(1)] digits [OF assms(2)] by (simp_all add: sep_split)
  then have "parseInt (show_int i) = parseInt (show_int j)" "parseInt (show_int v) = parseInt (show_int w)"
    by simp_all
  then show ?thesis by simp
qed

text \<open>The pooled client differs from the plain one only in its sockets; it has twenty unless the
  environment says otherwise.\<close>

lemma pooledRequest_options:
  assumes "pooledRequest env = Inr r"
  shows "request_timeout r = REQUEST_TIMEOUT" "\<not> request_simple r" "resolveWithFullResponse r"
    and "env_int env ''MAX_API_POST_WORKERS'' = Inr None \<Longrightarrow> request_maxSockets r = Some 20"
  using assms by (auto simp: pooledRequest_def maxSockets_def request_def bind_result_def split: sum.splits)

text \<open>A line of the access log has one word for each of its six parts.\<close>

lemma access_line_words:
  assumes "\<forall>w \<in> {ip, meth, url}. CHR '' '' \<notin> set w"
    and "\<forall>w \<in> set_option traceId \<union> set_option statusCode \<union> set_option responseTime. CHR '' '' \<notin> set w"
  shows "length (split_char CHR '' '' (access_line ip traceId meth url statusCode responseTime)) = 6"
  using assms unfolding access_line_def Let_def
  by (subst split_char_join) (auto split: option.splits)

end
