(* ===== verification/Spec2Isabelle.thy ===== *)
theory Spec2Isabelle
  imports Netmask Clients Metrics_Names Api Openvpn Config Device Proxy_Worker Service Vpn_Worker Init_Primary
    Haproxy Drain Cluster Tunnel_Network Auth_Script Client_Script Learn_Address Instances
    Runtime
begin

text \<open>
  A model of open-balena-vpn, the VPN server of balena, written in TypeScript
  (\<^verbatim>\<open>src/src/\<close> of the repository), and proofs about it.

  \<^bold>\<open>The program.\<close>  A primary process (\<^verbatim>\<open>init-primary.ts\<close>) registers the instance with the balena
  API (\<^verbatim>\<open>utils/service.ts\<close>), runs an internal HTTP API (\<^verbatim>\<open>api.ts\<close>) and forks one worker per
  OpenVPN instance.  A worker (\<^verbatim>\<open>init-worker.ts\<close>) runs an OpenVPN process through its manager
  (\<^verbatim>\<open>vpn-worker.ts\<close>, \<^verbatim>\<open>utils/openvpn.ts\<close>) with a subnet of its own (\<^verbatim>\<open>utils/netmask.ts\<close>,
  \<^verbatim>\<open>utils/config.ts\<close>), announces it to HAProxy (\<^verbatim>\<open>utils/haproxy.ts\<close>), and runs an HTTP CONNECT
  proxy to the connected devices (\<^verbatim>\<open>proxy-worker.ts\<close>, \<^verbatim>\<open>utils/device.ts\<close>).  OpenVPN's scripts call
  the internal API when a device authenticates (\<^verbatim>\<open>auth/src/main.rs\<close>), connects and disconnects
  (\<^verbatim>\<open>openvpn/scripts/client-connect-disconnect.sh\<close>), and limit its bandwidth
  (\<^verbatim>\<open>openvpn/scripts/learn-address.sh\<close>); the API reports the devices' states to the balena API (\<^verbatim>\<open>utils/clients.ts\<close>).

  \<^bold>\<open>Theories.\<close>
  \<^item> \<open>Vpn_Prelude\<close>: JavaScript strings, numbers, maps and sets as the sources use them, errors as
    values, event-driven machines, and the locales for them: \<open>machine_invariant\<close> and
    \<open>machine_refinement\<close> for step functions, \<open>transition_invariant\<close> for step relations, and
    \<open>progress_measure\<close> for steps that lead to a goal.
  \<^item> \<open>Netmask\<close>: the class \<open>Netmask\<close> over the npm package of that name, which is the parameter \<open>lib\<close>;
    \<open>netmask_lib_ok\<close> is its documented behaviour and \<open>quad_lib\<close> a concrete package that has it.
    \<open>split\<close> terminates, returns the consecutive sub-blocks, and they partition the network.
  \<^item> \<open>Clients\<close>: the reporting loop as a step relation over calls, answers and the timer.  No update
    is lost, reports do not overlap, reporting converges; a change of worker during a report that
    succeeds is not reported; \<open>chunk\<close> terminates exactly for a positive size.
  \<^item> \<open>Metrics_Names\<close>: the metrics, and how calls to the metrics package add up.
  \<^item> \<open>Api\<close>: the endpoints.  The locale \<open>device_tracker\<close> is the contract between them and the reporting
    module, interpreted on the model of \<open>Clients\<close>; reference counts are balances, authentication
    fails closed: only the API's own yes to exactly these credentials lets a device in.
  \<^item> \<open>Openvpn\<close>: the manager.  The console protocol is specified as messages, printed by OpenVPN
    and read back by the manager whatever the chunking, up to values with an equals sign; command line, orphan handling, start-up,
    the events of the child process.
  \<^item> \<open>Config\<close>: the settings and their validation; the default subnet size is the largest that fits.
  \<^item> \<open>Device\<close>: queries about devices, and the helpers of \<^verbatim>\<open>utils/index.ts\<close> and \<^verbatim>\<open>utils/errors.ts\<close>.
  \<^item> \<open>Proxy_Worker\<close>: the proxy.  Every request is decided and answered once; targets survive rewriting
    and forwarding; the tunnel metrics count the open tunnels.
  \<^item> \<open>Tunnel_Network\<close>: a request from the client's socket to its end, and instances that forward to each
    other: one hop when they agree where a device is, a loop that nothing detects when they do not.
    The receiving HTTP parser is the parameter \<open>parse\<close>; \<open>reads_http\<close> is what is relied on of it.
  \<^item> \<open>Auth_Script\<close>: the program that OpenVPN runs to check credentials, with the endpoint it asks: it
    passes on the API's verdict for plain credentials, but a password with quotes changes the user.
  \<^item> \<open>Client_Script\<close>: the hook script that reports connects and disconnects, and sessions of devices as
    the requests that it sends for them.
  \<^item> \<open>Learn_Address\<close>: the script that limits bandwidth, as a machine over its runs: the classes left in the
    kernel are those of the limited clients, until class ids run out after 9999 addresses.
  \<^item> \<open>Service\<close>: registration and heartbeat with their requests and captured errors.
  \<^item> \<open>Haproxy\<close>: the commands to HAProxy, read back as its control language.
  \<^item> \<open>Vpn_Worker\<close>: the worker as a machine over manager events, messages, signals and the steps of
    running drains: disjoint subnets, byte accounting, the drain schedule and its flaws.
  \<^item> \<open>Instances\<close>: the manager that each worker creates and its command line; those of different
    instances share no file, device, port or client address.
  \<^item> \<open>Init_Primary\<close>: how the cluster comes up, from registration to the environment each worker reads;
    the primary as a machine: the worker pool is always complete, the primary exits when all
    workers have drained, what a metrics scrape observes, fetches of metrics do not stack up.
  \<^item> \<open>Drain\<close>: a worker under any interleaving of drains with everything else: drains only go forward,
    and a worker that reports has told HAProxy, and every client it knows to disconnect.
  \<^item> \<open>Cluster\<close>: the primary and its workers as communicating processes with message queues, crashes and
    restarts: the primary exits only after every worker has drained; after SIGTERM the cluster stops,
    by a bounded number of deliveries and steps of drains (\<open>stop_work\<close>); and a worker that is
    starting misses the message to stop.
  \<^item> \<open>Runtime\<close>: the entry point and the options of the HTTP clients, loggers and Sentry.
  \<^item> this theory: the internal API together with the reporting loop, and the hook script in front of
    them, from sessions to what the balena API is told; the worker together with the
    console of its OpenVPN process, from bytes to counters; the shutdown of the whole cluster.

  \<^bold>\<open>Conventions.\<close>  Stateful code passes a record; asynchronous code is cut at its \<open>await\<close>s into
  steps, and everything that may happen in between is another event.  Errors are values of
  \<open>js_error\<close>.  A loop that nothing in the code bounds is a \<open>partial_function\<close> into an option:
  \<open>split_loop\<close>, \<open>chunk_loop\<close>, \<open>orphan_loop\<close>, \<open>waitForStart\<close>, \<open>service_register\<close>, \<open>route\<close>; for each of them
  it is proved when it returns.  No fuel is used.  A number is an unbounded integer or a rational and
  \<open>None\<close> where it may be \<open>NaN\<close>; rounding of doubles is not modelled, and printing is plain decimal,
  which JavaScript's is below $10^{21}$.  Texts are lists of characters: buffers are the text they
  hold, and decoding chunk by chunk is the identity, which is exact for ASCII.  The pauses of a
  drain are the ones asked for; Node rounds them to whole milliseconds.  Runs of the script that
  limits bandwidth follow one another.

  \<^bold>\<open>The environment.\<close>  The API, the npm packages, sockets, processes, signals, name lookups, clocks
  and HAProxy are parameters or events, arbitrary except where a property names what it assumes
  of them.

  \<^bold>\<open>Not modelled.\<close>  Log lines that nothing reads back; tracing and its set-up
  (\<^verbatim>\<open>init-instrumentation.ts\<close>); the middleware of Express apart from the handlers; memoization beyond
  the keys and what is cacheable, since the rest is the package \<^verbatim>\<open>memoizee\<close>; what \<open>tc\<close> does with a
  filter, and the configuration templates of HAProxy and OpenVPN, which are data for other
  programs.  What is left of the sources besides are imports and declarations of types.
\<close>

subsection \<open>The API server and the reporting loop together\<close>

text \<open>The primary process runs the connect and disconnect endpoints and the reporting loop in one
  event loop: a step is a whole request, the settling of a report, or the loop's timer.  The
  requests handled so far are kept as history.\<close>

record vpn_system =
  sys_api :: "clients_state api_state"
  sys_calls :: "api_call list"

datatype sys_event = SysCall api_call | SysReport clients_event

inductive system_trans :: "clients_config \<Rightarrow> int \<Rightarrow> vpn_system \<Rightarrow> sys_event \<Rightarrow> vpn_system \<Rightarrow> bool"
  for cfg :: clients_config and sid :: int where
  sys_call: "api_handle (setConnected cfg) sid (sys_api s) c = Some (a, outs) \<Longrightarrow>
    system_trans cfg sid s (SysCall c) \<lparr> sys_api = a, sys_calls = sys_calls s @ [c] \<rparr>"
| sys_report: "clients_trans cfg (tracker_state (sys_api s)) (ev, ps) t \<Longrightarrow>
    (\<forall>u i w c. ev \<noteq> Call u i w c) \<Longrightarrow>
    system_trans cfg sid s (SysReport ev) (s\<lparr>sys_api := (sys_api s)\<lparr>tracker_state := t\<rparr>\<rparr>)"

definition system_start :: "vpn_system \<Rightarrow> bool" where
  "system_start s \<longleftrightarrow> s = \<lparr> sys_api = api_init clients_init, sys_calls = [] \<rparr>"

definition targets_follow :: "clients_state api_state \<Rightarrow> bool" where
  "targets_follow a \<longleftrightarrow> (\<forall>u. client_target (tracker_state a) u = Some True \<longleftrightarrow> 1 \<le> ref_count a u)"

definition system_inv :: "vpn_system \<Rightarrow> bool" where
  "system_inv s \<longleftrightarrow> clients_inv (tracker_state (sys_api s)) \<and> targets_follow (sys_api s) \<and>
     (\<forall>u. ref_count (sys_api s) u = balance (sys_calls s) u)"

text \<open>A request reaches the tracker through \<open>setConnected\<close> or not at all.\<close>

lemma api_handle_tracker:
  assumes "api_handle report sid st c = Some (st', outs)"
  shows "tracker_state st' = tracker_state st \<or>
    (\<exists>u w b ps. report u sid w b (tracker_state st) = Some (tracker_state st', ps))"
  using assms
  by (cases c) (auto simp: post_clients_def delete_clients_def report_to_def Let_def split: if_splits)

lemma mark_reported_target:
  "map_option targetConnected (map_of (fst (mark_reported c us ds)) u) =
   map_option targetConnected (map_of ds u)"
  by (induction c us ds rule: mark_reported.induct) (auto split: option.splits)

lemma settle_post_target: "client_target (settle_post p out st) u = client_target st u"
  using mark_reported_target [of "post_connected p" "post_uuids p" "deviceStates st" u]
  by (auto simp: client_target_def settle_post_def split: prod.splits bool.splits)

lemma report_step_target:
  assumes "clients_trans cfg st (ev, ps) st'" "\<forall>u i w c. ev \<noteq> Call u i w c"
  shows "client_target st' u = client_target st u"
proof (cases ev)
  case (Call v i w c)
  then show ?thesis using assms(2) by blast
next
  case (Settled p res)
  then show ?thesis
    using assms(1) settle_post_target [of p res st u]
    by (auto elim!: settledE simp: client_target_def)
next
  case TimerFired
  then show ?thesis
    using assms(1) by (auto elim!: timerE simp: client_target_def dest!: updateLoop_deviceStates)
qed

interpretation system_machine: transition_invariant system_start "system_trans cfg sid" system_inv
proof
  fix s
  assume "system_start s"
  moreover have "clients_inv clients_init" by (rule clients_machine.start_inv) simp
  ultimately show "system_inv s"
    by (simp add: system_start_def system_inv_def targets_follow_def balance_def api_init_def
        client_target_def clients_init_def ref_count_def)
next
  fix s l s'
  assume inv: "system_inv s" and step: "system_trans cfg sid s l s'"
  from step show "system_inv s'"
  proof cases
    case (sys_call c a outs)
    have follow: "\<And>u. client_target (tracker_state (sys_api s)) u = Some True \<longleftrightarrow> 1 \<le> ref_count (sys_api s) u"
      using inv by (simp add: system_inv_def targets_follow_def)
    note eff = clients_tracker.api_call_effect [OF sys_call(3) follow]
    have "clients_inv (tracker_state a)"
      using api_handle_tracker [OF sys_call(3)] inv setConnected_inv by (fastforce simp: system_inv_def)
    then show ?thesis
      using eff(1,2) inv sys_call(2) by (simp add: system_inv_def targets_follow_def balance_def)
  next
    case (sys_report ev ps t)
    then show ?thesis
      using inv clients_trans_inv [OF _ sys_report(3)] report_step_target [OF sys_report(3,4)]
      by (simp add: system_inv_def targets_follow_def)
  qed
qed

lemma system_balance:
  assumes "reach system_start (system_trans cfg sid) s"
  shows "ref_count (sys_api s) u = balance (sys_calls s) u \<and>
    (client_target (tracker_state (sys_api s)) u = Some True \<longleftrightarrow> 1 \<le> balance (sys_calls s) u) \<and>
    (\<forall>t. pendingUpdates (tracker_state (sys_api s)) = [] \<and> in_flight (tracker_state (sys_api s)) = [] \<and>
       map_of (deviceStates (tracker_state (sys_api s))) u = Some t \<longrightarrow>
       currentConnected t = Some (1 \<le> balance (sys_calls s) u))"
proof -
  have inv: "system_inv s" by (rule system_machine.reach_inv [OF assms])
  then have count: "ref_count (sys_api s) u = balance (sys_calls s) u"
    and tgt: "client_target (tracker_state (sys_api s)) u = Some True \<longleftrightarrow> 1 \<le> ref_count (sys_api s) u"
    and ci: "clients_inv (tracker_state (sys_api s))"
    by (auto simp: system_inv_def targets_follow_def)
  have "currentConnected t = Some (1 \<le> balance (sys_calls s) u)"
    if quiet: "pendingUpdates (tracker_state (sys_api s)) = []" "in_flight (tracker_state (sys_api s)) = []"
      and t: "map_of (deviceStates (tracker_state (sys_api s))) u = Some t" for t
  proof -
    have "reported t" using ci t quiet flight_invD(2) [of _ u t] by (auto simp: clients_inv_def)
    moreover have "targetConnected t = (1 \<le> balance (sys_calls s) u)"
      using tgt count t by (simp add: client_target_def)
    ultimately show ?thesis by (simp add: reported_def)
  qed
  then show ?thesis using count tgt by auto
qed

text \<open>C1. The API is told the truth about every device.  Whatever connect and disconnect requests
  arrive, in whatever order, and however they interleave with reports that succeed or fail and
  with the reporting timer: the reference count of a device is its connects minus its
  disconnects; the device's target state is connected exactly when that balance is positive;
  and whenever nothing is pending or in flight, the state last reported to the API for a device
  is connected exactly when its balance is positive.\<close>

theorem system_reports_balance:
  assumes "reach system_start (system_trans cfg sid) s"
  shows "ref_count (sys_api s) u = balance (sys_calls s) u \<and>
    (client_target (tracker_state (sys_api s)) u = Some True \<longleftrightarrow> 1 \<le> balance (sys_calls s) u) \<and>
    (\<forall>t. pendingUpdates (tracker_state (sys_api s)) = [] \<and> in_flight (tracker_state (sys_api s)) = [] \<and>
       map_of (deviceStates (tracker_state (sys_api s))) u = Some t \<longrightarrow>
       currentConnected t = Some (1 \<le> balance (sys_calls s) u))"
  using assms by (rule system_balance)

definition demo_system :: "api_request \<Rightarrow> vpn_system" where
  "demo_system r =
     \<lparr> sys_api = \<lparr> clientRefCount = [(''abcd'', 1)], tracker_state = demo_state \<rparr>, sys_calls = [PostClients r] \<rparr>"

lemma demo_system_reach:
  assumes "fromLocalHost r" "common_name (req_body r) = Some ''abcd''" "worker_param r = ''1''"
  shows "reach system_start (system_trans demo_config 7) (demo_system r)"
proof -
  let ?s = "\<lparr> sys_api = api_init clients_init, sys_calls = [] \<rparr> :: vpn_system"
  have "parseInt ''1'' = Some 1" by code_simp
  then have "api_handle (setConnected demo_config) 7 (sys_api ?s) (PostClients r) =
      Some (\<lparr> clientRefCount = [(''abcd'', 1)], tracker_state = demo_state \<rparr>,
        [Reply 200 '''', Metric (MInc OnlineDevices (Some 1)), Metric (MInc TotalDevices (Some 1)), Post demo_post])"
    using demo_call assms
    by (simp add: post_clients_def hasCommonName_def api_init_def ref_count_def set_ref_count_def report_to_def)
  then have "system_trans demo_config 7 ?s (SysCall (PostClients r)) (demo_system r)"
    using sys_call [of demo_config 7 ?s] by (simp add: demo_system_def)
  moreover have "reach system_start (system_trans demo_config 7) ?s"
    by (rule reach_start) (simp add: system_start_def)
  ultimately show ?thesis by (rule reach_step [rotated])
qed

theorem system_reports_balance_witness:
  "ref_count (sys_api (demo_system demo_request)) ''abcd'' = 1 \<and>
   client_target (tracker_state (sys_api (demo_system demo_request))) ''abcd'' = Some True"
proof -
  have "reach system_start (system_trans demo_config 7) (demo_system demo_request)"
    by (rule demo_system_reach) (simp_all add: demo_request_def fromLocalHost_def)
  moreover have "balance (sys_calls (demo_system demo_request)) ''abcd'' = 1"
    by (simp add: demo_system_def balance_def accepted_def demo_request_def fromLocalHost_def)
  ultimately show ?thesis using system_reports_balance [of demo_config 7 "demo_system demo_request" "''abcd''"] by simp
qed

text \<open>C2. From OpenVPN's hooks to what the API knows.  Take any sessions of any devices on any instances,
  some over and some not, and let the requests that the hook script sends when they begin and
  end arrive in any order whatsoever, interleaved with reports that succeed or fail.  When all
  have arrived, the reference count of a device is the number of its sessions that are still
  open, its target is connected exactly when there is one, and once nothing is pending or in
  flight, that is what has been reported.\<close>

theorem sessions_reported:
  assumes "reads_document read" "list_all (\<lambda>ses. json_plain (ses_uuid ses)) ss"
    and "reach system_start (system_trans cfg sid) s"
    and "mset (sys_calls s) = mset (concat (map (session_calls read port) ss))"
  shows "ref_count (sys_api s) u = int (open_sessions ss u) \<and>
    (client_target (tracker_state (sys_api s)) u = Some True \<longleftrightarrow>
       (\<exists>ses \<in> set ss. ses_uuid ses = u \<and> ses_end ses = None)) \<and>
    (\<forall>t. pendingUpdates (tracker_state (sys_api s)) = [] \<and> in_flight (tracker_state (sys_api s)) = [] \<and>
       map_of (deviceStates (tracker_state (sys_api s))) u = Some t \<longrightarrow>
       currentConnected t = Some (\<exists>ses \<in> set ss. ses_uuid ses = u \<and> ses_end ses = None))"
proof -
  have balance: "balance (sys_calls s) u = int (open_sessions ss u)"
    by (rule arrivals_balance [OF assms(1,2,4)])
  note told = system_balance [OF assms(3), of u, unfolded balance open_sessions_iff]
  then show ?thesis by blast
qed

theorem sessions_reported_witness:
  "ref_count (sys_api (demo_system (hook_request ''1'' ''abcd'' None))) ''abcd'' = 1 \<and>
   client_target (tracker_state (sys_api (demo_system (hook_request ''1'' ''abcd'' None)))) ''abcd'' = Some True"
proof -
  let ?ses = "\<lparr> ses_uuid = ''abcd'', ses_instance = ''1'', ses_end = None \<rparr>"
  let ?s = "demo_system (hook_request ''1'' ''abcd'' None)"
  have "session_calls demo_document ''80'' ?ses = [PostClients (hook_request ''1'' ''abcd'' None)]"
    by (subst session_calls_plain [OF demo_document_ok]) (simp_all add: json_plain_def)
  then have arrived: "mset (sys_calls ?s) = mset (concat (map (session_calls demo_document ''80'') [?ses]))"
    by (simp add: demo_system_def)
  have "reach system_start (system_trans demo_config 7) ?s"
    by (rule demo_system_reach) (simp_all add: hook_request_def fromLocalHost_def)
  from sessions_reported [OF demo_document_ok _ this arrived, of "''abcd''"]
  show ?thesis by (simp add: json_plain_def open_sessions_def)
qed

subsection \<open>A worker and the console of its OpenVPN process\<close>

text \<open>The bytes of the console reach the manager chunk by chunk; the events it emits for a chunk run
  the worker's listeners at once, at the time the chunk arrives.\<close>

definition console_step ::
  "worker_config \<Rightarrow> int option \<Rightarrow> vpn_manager \<times> worker_state \<Rightarrow> string \<times> int \<Rightarrow>
   (vpn_manager \<times> worker_state) \<times> worker_out list" where
  "console_step cfg pid mw piece =
     (let (m, evs) = on_data (fst mw) (fst piece);
          (w, outs) = run_events (worker_step cfg) (snd mw) (concat (map (listeners pid (snd piece)) evs))
      in ((m, w), outs))"

text \<open>The specification of the byte accounting, on the messages of the console: a table of the
  clients' latest counts.  A session starts at zero; counts of unknown clients are ignored.\<close>

type_synonym counts = "(int option \<times> int option \<times> int option) list"

definition count_update :: "int option \<Rightarrow> int option \<Rightarrow> int option \<Rightarrow> counts \<Rightarrow> counts" where
  "count_update c rx tx t = (if c \<in> fst ` set t then AList.update c (rx, tx) t else t)"

fun count_msg :: "console_msg \<Rightarrow> counts \<Rightarrow> counts" where
  "count_msg (MClient ty c as env) t = (if ty = ''ESTABLISHED'' then AList.update (Some c) (Some 0, Some 0) t else t)"
| "count_msg (MBytecount c rx tx) t = count_update (Some c) (Some rx) (Some tx) t"
| "count_msg _ t = t"

text \<open>OpenVPN numbers its sessions: none is established twice, and each has a common name.\<close>

fun sessions_ok :: "int list \<Rightarrow> console_msg list \<Rightarrow> bool" where
  "sessions_ok known [] = True"
| "sessions_ok known (MClient ty c as env # msgs) =
     (if ty = ''ESTABLISHED''
      then as = [] \<and> ''common_name'' \<in> fst ` set env \<and> c \<notin> set known \<and> sessions_ok (c # known) msgs
      else sessions_ok known msgs)"
| "sessions_ok known (_ # msgs) = sessions_ok known msgs"

text \<open>The worker's cache as such a table, and the same table on worker events.\<close>

definition cache_counts :: "worker_state \<Rightarrow> counts" where
  "cache_counts w = map (\<lambda>(k, e). (k, entry_received e, entry_sent e)) (clientCache w)"

fun count_event :: "worker_event \<Rightarrow> counts \<Rightarrow> counts" where
  "count_event (WEstablished c as env now) t =
     (if established_name as env = None then t else AList.update c (Some 0, Some 0) t)"
| "count_event (WBytecount c rx tx now) t = count_update c rx tx t"
| "count_event _ t = t"

lemma update_map_values:
  "AList.update k (f v) (map (\<lambda>(k, v). (k, f v)) al) = map (\<lambda>(k, v). (k, f v)) (AList.update k v al)"
  by (induction al) auto

lemma cache_counts_update:
  "AList.update k (entry_received e, entry_sent e) (cache_counts w) =
   cache_counts (w\<lparr>clientCache := AList.update k e (clientCache w)\<rparr>)"
  using update_map_values [of k "\<lambda>e. (entry_received e, entry_sent e)" e "clientCache w"]
  by (simp add: cache_counts_def)

lemma cache_counts_keys [simp]: "fst ` set (cache_counts w) = fst ` set (clientCache w)"
  by (force simp: cache_counts_def)

text \<open>The worker implements the table, whatever the event and the time.\<close>

lemma worker_step_refines:
  "cache_counts (fst (worker_step cfg w ev)) = count_event ev (cache_counts w)"
proof (cases "accounting ev")
  case False
  then have "cache_counts (fst (worker_step cfg w ev)) = cache_counts w"
    using other_event_quiet [of ev cfg w] by (simp add: cache_counts_def prod_eq_iff)
  moreover have "count_event ev t = t" for t
    using False by (cases ev) (auto simp: accounting_def)
  ultimately show ?thesis by simp
next
  case True
  then consider (est) c as env now cn where "ev = WEstablished c as env now" "established_name as env = Some cn"
    | (count) c rx tx now where "ev = WBytecount c rx tx now"
    unfolding accounting_def by blast
  then show ?thesis
  proof cases
    case est
    then show ?thesis
      using cache_counts_update [of c "\<lparr> entry_uuid = cn, entry_ts = now, entry_received = Some 0, entry_sent = Some 0 \<rparr>" w]
      by (simp add: on_established_def)
  next
    case count
    show ?thesis
    proof (cases "map_of (clientCache w) c")
      case None
      then have "c \<notin> fst ` set (clientCache w)" by (simp add: map_of_eq_None_iff)
      then show ?thesis
        using count None by (simp add: writeBandwidthMetrics_def count_update_def)
    next
      case (Some e)
      then have "c \<in> fst ` set (clientCache w)" by (metis map_of_eq_None_iff option.distinct(1))
      then show ?thesis
        using count Some cache_counts_update [of c "e\<lparr>entry_received := rx, entry_sent := tx, entry_ts := now\<rparr>" w]
        by (simp add: writeBandwidthMetrics_def count_update_def Let_def)
    qed
  qed
qed

interpretation worker_refinement: machine_refinement "worker_step cfg" cache_counts count_event
  by unfold_locales (rule worker_step_refines)

text \<open>Running the composition is running the manager and then the worker, on events stamped with
  the time of their chunk.\<close>

lemma run_console:
  "\<exists>evs. map fst evs = snd (run_events on_data m (map fst chunks)) \<and>
    run_events (console_step cfg pid) (m, w) chunks =
      (let (w', outs) = run_events (worker_step cfg) w (concat (map (\<lambda>(ev, t). listeners pid t ev) evs))
       in ((fst (run_events on_data m (map fst chunks)), w'), outs))"
proof (induction chunks arbitrary: m w)
  case (Cons piece chunks)
  obtain m1 evs1 where 1: "on_data m (fst piece) = (m1, evs1)" by fastforce
  obtain w1 o1 where 2: "run_events (worker_step cfg) w (concat (map (listeners pid (snd piece)) evs1)) = (w1, o1)"
    by fastforce
  obtain evs2 where 3: "map fst evs2 = snd (run_events on_data m1 (map fst chunks))"
    "run_events (console_step cfg pid) (m1, w1) chunks =
      (let (w', outs) = run_events (worker_step cfg) w1 (concat (map (\<lambda>(ev, t). listeners pid t ev) evs2))
       in ((fst (run_events on_data m1 (map fst chunks)), w'), outs))"
    using Cons.IH by blast
  let ?evs = "map (\<lambda>ev. (ev, snd piece)) evs1 @ evs2"
  have "concat (map (\<lambda>(ev, t). listeners pid t ev) ?evs) =
      concat (map (listeners pid (snd piece)) evs1) @ concat (map (\<lambda>(ev, t). listeners pid t ev) evs2)"
    by (simp add: comp_def)
  moreover have "console_step cfg pid (m, w) piece = ((m1, w1), o1)"
    using 1 2 by (simp add: console_step_def)
  ultimately show ?case
    using 1 2 3
    by (intro exI [of _ ?evs]) (simp add: run_events_append split_def Let_def comp_def)
qed simp

text \<open>The times and the process id do not matter to the accounting.\<close>

lemma listeners_count: "fold count_event (listeners pid t ev) = fold count_event (listeners None 0 ev)"
  by (cases ev) (auto simp: fun_eq_iff)

lemma listeners_traffic:
  "traffic known (listeners pid t ev @ evs) \<longleftrightarrow> traffic known (listeners None 0 ev @ evs)"
  by (cases ev) auto

lemma timed_count:
  "fold count_event (concat (map (\<lambda>(ev, t). listeners pid t ev) evs)) =
   fold count_event (concat (map (listeners None 0) (map fst evs)))"
  by (induction evs) (auto simp: listeners_count [of pid] split_def)

lemma traffic_append_cong:
  "(\<And>known. traffic known xs = traffic known ys) \<Longrightarrow> traffic known (es @ xs) = traffic known (es @ ys)"
proof (induction es arbitrary: known)
  case (Cons e es)
  then show ?case by (cases e) auto
qed simp

lemma timed_traffic:
  "traffic known (concat (map (\<lambda>(ev, t). listeners pid t ev) evs)) \<longleftrightarrow>
   traffic known (concat (map (listeners None 0) (map fst evs)))"
proof (induction evs arbitrary: known)
  case (Cons e evs)
  show ?case
    using listeners_traffic [of known pid "snd e" "fst e"] traffic_append_cong [OF Cons.IH]
    by (simp add: split_def)
qed simp

text \<open>What the messages' events mean to the worker is what the messages mean to the table.\<close>

abbreviation msg_work :: "console_msg list \<Rightarrow> worker_event list" where
  "msg_work msgs \<equiv> concat (map (listeners None 0) (concat (map msg_events msgs)))"

lemma event_names [simp]:
  "toLowerCase ''ESTABLISHED'' = ''established''" "toLowerCase ''CONNECT'' = ''connect''"
  "toLowerCase ''DISCONNECT'' = ''disconnect''"
  by code_simp+

lemma established_name_env:
  "established_name [] (map (\<lambda>(k, v). (k, Some (cut_value v))) env) = None \<longleftrightarrow> ''common_name'' \<notin> fst ` set env"
  using map_of_eq_None_iff [of env "''common_name''"]
  by (auto simp: established_name_def map_of_map split: option.split)

lemma msgs_count:
  assumes "list_all msg_ok msgs" "sessions_ok known msgs"
  shows "fold count_event (msg_work msgs) t = fold count_msg msgs t"
  using assms
proof (induction msgs arbitrary: known t)
  case (Cons msg msgs)
  then show ?case
    by (cases msg) (auto simp: established_name_env split: if_splits)
qed simp

lemma msgs_traffic:
  assumes "list_all msg_ok msgs" "sessions_ok known msgs"
  shows "traffic (map Some known) (msg_work msgs)"
  using assms
proof (induction msgs arbitrary: known)
  case (Cons msg msgs)
  have "traffic (map Some (c # known)) (msg_work msgs)" if "sessions_ok (c # known) msgs" for c
    using Cons.IH [OF _ that] Cons.prems(1) by simp
  then show ?case
    using Cons by (cases msg) (auto simp: established_name_env split: if_splits)
qed simp

lemma msg_work_read:
  assumes "between m" "evs @ pending m = concat (map msg_events msgs)"
  shows "concat (map (listeners None 0) evs) = msg_work msgs"
proof -
  have "concat (map (listeners None 0) (pending m)) = []"
    using between_pending [OF assms(1)] by auto
  then show ?thesis unfolding assms(2) [symmetric] by simp
qed

lemma cache_sum_counts:
  "cache_sum entry_received w = (\<Sum>(c, rx, tx) \<leftarrow> cache_counts w. of_int (the rx))"
  "cache_sum entry_sent w = (\<Sum>(c, rx, tx) \<leftarrow> cache_counts w. of_int (the tx))"
  by (simp_all add: cache_sum_def cache_counts_def split_def comp_def)

text \<open>C4. From OpenVPN's console to the counters.  OpenVPN prints any sequence of messages on its
  console; the bytes arrive in any chunks, at any times.  A worker that started with no clients
  then has, for every session, exactly the byte counts that OpenVPN last printed for it, and it
  has added exactly their sum to the received-bytes and the sent-bytes counter: the table that
  the messages specify is implemented by parsing, line buffering, event dispatch and accounting
  together.\<close>

theorem worker_counts_console:
  assumes "console_ok msgs" and "sessions_ok [] msgs"
    and "concat (map fst chunks) = concat (map msg_text msgs)"
    and "handler m = DataHandler" and "buf m = ''''"
  shows "\<exists>m' w outs. run_events (console_step cfg pid) (m, worker_init v) chunks = ((m', w), outs) \<and>
    buf m' = '''' \<and> cache_counts w = fold count_msg msgs [] \<and>
    metric_total RxBytes (out_metrics outs) = (\<Sum>(c, rx, tx) \<leftarrow> fold count_msg msgs []. of_int (the rx)) \<and>
    metric_total TxBytes (out_metrics outs) = (\<Sum>(c, rx, tx) \<leftarrow> fold count_msg msgs []. of_int (the tx))"
proof -
  have ok: "list_all msg_ok msgs" using assms(1) by (auto simp: console_ok_def list_all_iff)
  obtain m' evs where read: "run_events on_data m (map fst chunks) = (m', evs)" "buf m' = ''''"
    "evs @ pending m' = concat (map msg_events msgs)" "between m'"
    using read_console [OF assms(1,3-5)] by blast
  obtain tevs where tevs: "map fst tevs = evs"
    "run_events (console_step cfg pid) (m, worker_init v) chunks =
      (let (w, outs) = run_events (worker_step cfg) (worker_init v)
         (concat (map (\<lambda>(ev, t). listeners pid t ev) tevs)) in ((m', w), outs))"
    using run_console [of m chunks cfg pid "worker_init v"] read(1) by auto
  let ?work = "concat (map (\<lambda>(ev, t). listeners pid t ev) tevs)"
  obtain w outs where run: "run_events (worker_step cfg) (worker_init v) ?work = (w, outs)" by fastforce
  note work = msg_work_read [OF read(4,3)]
  have start: "counts_ok (worker_init v)" "cache_counts (worker_init v) = []"
    "cache_sum f (worker_init v) = 0" for f
    by (simp_all add: counts_ok_def cache_counts_def cache_sum_def worker_init_def)
  have "cache_counts w = fold count_event ?work []"
    by (rule worker_refinement.run_from [OF run start(2)])
  also have "\<dots> = fold count_msg msgs []"
    by (simp only: timed_count tevs(1) work msgs_count [OF ok assms(2)])
  finally have table: "cache_counts w = fold count_msg msgs []" .
  have "traffic (map fst (clientCache (worker_init v))) ?work"
    using msgs_traffic [OF ok assms(2)] by (simp only: timed_traffic tevs(1) work) (simp add: worker_init_def)
  from traffic_effect [OF start(1) this run] have
    "metric_total RxBytes (out_metrics outs) = cache_sum entry_received w"
    "metric_total TxBytes (out_metrics outs) = cache_sum entry_sent w"
    by (simp_all add: start(3))
  then show ?thesis using tevs(2) run read(2) table by (simp add: cache_sum_counts)
qed

theorem worker_counts_console_witness:
  "let text = concat (map msg_text demo_msgs) in
   \<exists>m' w outs. run_events (console_step demo_worker (Some 99)) (demo_manager, worker_init False)
       [(take 33 text, 10), (drop 33 text, 25)] = ((m', w), outs) \<and>
     cache_counts w = [(Some 4, Some 1500, Some 700)] \<and>
     metric_total RxBytes (out_metrics outs) = 1500 \<and> metric_total TxBytes (out_metrics outs) = 700"
proof -
  let ?t = "concat (map msg_text demo_msgs)"
  have ok: "console_ok demo_msgs" "sessions_ok [] demo_msgs" by code_simp+
  have table: "fold count_msg demo_msgs [] = [(Some 4, Some 1500, Some 700)]" by code_simp
  have m: "handler demo_manager = DataHandler" "buf demo_manager = ''''"
    by (simp_all add: demo_manager_def VpnManager_new_def)
  have "concat (map fst [(take 33 ?t, 10), (drop 33 ?t, 25 :: int)]) = ?t" by simp
  from worker_counts_console [OF ok this m, of demo_worker "Some 99" False]
  show ?thesis unfolding table Let_def by auto
qed

subsection \<open>Shutting the cluster down\<close>

lemma worker_drains_on_message:
  assumes "drain_bound w" "has_send cfg"
  shows "WDrained (worker_instance cfg) \<in> set (snd (run_events (worker_step cfg) w
    (WPrepareShutdown # replicate (length (clientCache w) + 3) (WDrain (length (drains w)) True))))"
proof -
  let ?w = "fst (start_drain cfg w)"
  have "run_events (worker_step cfg) ?w
      (replicate (length (clientCache ?w) + 3) (WDrain (length (drains w)) True)) =
      (?w\<lparr>drains := (drains ?w)[length (drains w) := Exited]\<rparr>,
       drain_command cfg # kill_outs (drain_delay cfg (length (clientCache ?w))) (clientCache ?w) @
         drain_done cfg @ [WExit 0])"
    by (rule run_drain) (simp_all add: start_drain_def)
  moreover have "clientCache ?w = clientCache w" by (simp add: start_drain_def)
  moreover have "worker_step cfg w WPrepareShutdown = (?w, snd (start_drain cfg w))"
    using assms(1) by (simp add: on_prepare_shutdown_def)
  ultimately show ?thesis
    using assms(2) by (simp add: drain_done_def split_def Let_def del: worker_step.simps)
qed

text \<open>A cluster that is told to stop stops.  On the termination signal the primary tells each of
  its workers to shut down; a worker that is not already draining, and that can reach HAProxy,
  disconnects its clients and reports that it has drained; and when the reports of all workers
  have arrived, in any order and with any repetitions, the primary has exited with code 0.\<close>

theorem shutdown_completes:
  assumes "reach (primary_started cfg v) (primary_trans cfg) st" and "1 \<le> instance_count cfg"
    and "\<And>i. i \<in> {1..instance_count cfg} \<Longrightarrow>
      drain_bound (W i) \<and> has_send (wc i) \<and> worker_instance (wc i) = i"
    and "set order = {1..instance_count cfg}" and "i \<in> {1..instance_count cfg}"
  shows "PSend i ''prepareShutdown'' \<in> set (snd (primary_step cfg st PSIGTERM)) \<and>
    WDrained i \<in> set (snd (run_events (worker_step (wc i)) (W i)
      (WPrepareShutdown # replicate (length (clientCache (W i)) + 3) (WDrain (length (drains (W i))) True)))) \<and>
    PExit 0 \<in> set (snd (run_events (primary_step cfg) (fst (primary_step cfg st PSIGTERM))
      (map (\<lambda>i. PDrain i True) order)))"
proof (intro conjI)
  have "workers_inv cfg st" by (rule primary_machine.reach_inv [OF assms(1)])
  then show "PSend i ''prepareShutdown'' \<in> set (snd (primary_step cfg st PSIGTERM))"
    using assms(5) by (simp add: workers_inv_def send_all_def)
  have "drain_bound (W i)" "has_send (wc i)" "worker_instance (wc i) = i" using assms(3,5) by blast+
  then show "WDrained i \<in> set (snd (run_events (worker_step (wc i)) (W i)
      (WPrepareShutdown # replicate (length (clientCache (W i)) + 3) (WDrain (length (drains (W i))) True))))"
    using worker_drains_on_message [of "W i" "wc i"] by simp
  have "order \<noteq> []" using assms(2,4) by auto
  then show "PExit 0 \<in> set (snd (run_events (primary_step cfg) (fst (primary_step cfg st PSIGTERM))
      (map (\<lambda>i. PDrain i True) order)))"
    using assms(4) by (intro all_drained_exit) auto
qed

theorem shutdown_completes_witness:
  "PExit 0 \<in> set (snd (run_events (primary_step demo_primary)
     (fst (fork_workers demo_primary 0 (primary_init False))) [PDrain 2 True, PDrain 1 True]))"
proof -
  have start: "reach (primary_started demo_primary False) (primary_trans demo_primary)
      (fst (fork_workers demo_primary 0 (primary_init False)))"
    by (rule reach_start) (simp add: primary_started_def demo_primary_def)
  have workers: "drain_bound (worker_init False) \<and> has_send (demo_worker\<lparr>worker_instance := i\<rparr>) \<and>
      worker_instance (demo_worker\<lparr>worker_instance := i\<rparr>) = i" for i
    by (simp add: worker_init_def demo_worker_def)
  have order: "set [2, 1] = {1..instance_count demo_primary}" by (auto simp: demo_primary_def)
  have "1 \<le> instance_count demo_primary" "1 \<in> {1..instance_count demo_primary}"
    by (simp_all add: demo_primary_def)
  from shutdown_completes [OF start this(1) workers order this(2)] show ?thesis by simp
qed

end
